theory Spec2Isabelle
  imports Complex_Main "HOL-Library.Log_Nat" "HOL-Library.Char_ord" "HOL-Library.List_Lexorder"
begin

section \<open>Python values used by the scorer\<close>

text \<open>
  The exceptions that the statements of \<^verbatim>\<open>predict_disease\<close> can raise: a division by
  zero, \<^verbatim>\<open>max\<close> of an empty sequence, and the read of a missing dictionary key.
\<close>

datatype py_error = ZeroDivisionError | ValueError | KeyError

subsection \<open>Floats\<close>

text \<open>
  A finite Python float is an IEEE 754 binary64 number; it is represented by its exact
  value, a rational. Every operation computes the exact result and rounds it to the
  nearest binary64 number, ties to even: 53 significant bits, and a least exponent of
  \<open>-1074\<close> (the subnormal range). Overflow to infinity is not represented: every value
  that the scorer rounds lies between 0 and 1000.
\<close>

type_synonym double = rat

definition pow2 :: "int \<Rightarrow> rat" where
  "pow2 e = (if 0 \<le> e then 2 ^ nat e else 1 / 2 ^ nat (- e))"

definition round_half_even :: "rat \<Rightarrow> int" where
  "round_half_even x =
     (let f = \<lfloor>x\<rfloor>; d = x - of_int f
      in if d < 1 / 2 then f
         else if 1 / 2 < d then f + 1
         else if even f then f else f + 1)"

text \<open>\<open>ilog2 x\<close> is \<open>\<lfloor>log\<^sub>2 \<bar>x\<bar>\<rfloor>\<close> for \<open>x \<noteq> 0\<close>, computed from the bit lengths of the
  numerator and the denominator.\<close>

definition ilog2 :: "rat \<Rightarrow> int" where
  "ilog2 x =
     (case quotient_of \<bar>x\<bar> of (a, b) \<Rightarrow>
        let k = bitlen a - bitlen b
        in if pow2 k \<le> \<bar>x\<bar> then k else k - 1)"

definition ulp_exp :: "rat \<Rightarrow> int" where
  "ulp_exp x = max (ilog2 x - 52) (- 1074)"

definition fl :: "rat \<Rightarrow> double" where
  "fl x = of_int (round_half_even (x / pow2 (ulp_exp x))) * pow2 (ulp_exp x)"

text \<open>\<^verbatim>\<open>a / b\<close> on two ints: the correctly rounded quotient, or \<^verbatim>\<open>ZeroDivisionError\<close>.\<close>

definition py_truediv :: "int \<Rightarrow> int \<Rightarrow> py_error + double" where
  "py_truediv a b = (if b = 0 then Inl ZeroDivisionError else Inr (fl (of_int a / of_int b)))"

definition float_mul :: "double \<Rightarrow> double \<Rightarrow> double" where
  "float_mul x y = fl (x * y)"

text \<open>\<^verbatim>\<open>round(x, ndigits)\<close> on a float: the exact value of \<open>x\<close> is rounded to \<open>ndigits\<close>
  decimal places, ties to even, and the decimal is converted back to the nearest float.\<close>

definition py_round :: "double \<Rightarrow> nat \<Rightarrow> double" where
  "py_round x ndigits = fl (of_int (round_half_even (x * 10 ^ ndigits)) / 10 ^ ndigits)"

subsection \<open>Insertion-ordered dictionaries, \<^verbatim>\<open>max\<close>, slices and the sort\<close>

text \<open>A \<^verbatim>\<open>dict\<close> keeps its keys in the order of their first insertion: an association list
  with distinct keys. \<open>dict_set\<close> is \<^verbatim>\<open>d[k] = v\<close>, \<open>dict_getitem\<close> is \<^verbatim>\<open>d[k]\<close>.\<close>

fun dict_set :: "('k \<times> 'v) list \<Rightarrow> 'k \<Rightarrow> 'v \<Rightarrow> ('k \<times> 'v) list" where
  "dict_set [] k v = [(k, v)]"
| "dict_set ((k', v') # d) k v =
     (if k' = k then (k, v) # d else (k', v') # dict_set d k v)"

definition dict_getitem :: "('k \<times> 'v) list \<Rightarrow> 'k \<Rightarrow> py_error + 'v" where
  "dict_getitem d k = (case map_of d k of None \<Rightarrow> Inl KeyError | Some v \<Rightarrow> Inr v)"

definition py_max :: "int list \<Rightarrow> py_error + int" where
  "py_max xs = (case xs of [] \<Rightarrow> Inl ValueError | x # rest \<Rightarrow> Inr (fold max rest x))"

text \<open>\<^verbatim>\<open>xs[:n]\<close>: the first \<open>n\<close> elements, and for a negative \<open>n\<close> all but the last \<open>-n\<close>.\<close>

definition py_slice_to :: "'a list \<Rightarrow> int \<Rightarrow> 'a list" where
  "py_slice_to xs n =
     (if 0 \<le> n then take (nat n) xs else take (nat (int (length xs) + n)) xs)"

text \<open>\<^verbatim>\<open>xs.sort(key=f, reverse=True)\<close>: descending by key, and stable (elements with
  equal keys keep their order): the stable insertion sort on the negated key.\<close>

definition sort_reverse :: "('a \<Rightarrow> rat) \<Rightarrow> 'a list \<Rightarrow> 'a list" where
  "sort_reverse f xs = sort_key (\<lambda>x. - f x) xs"

section \<open>The disease scorer (\<^verbatim>\<open>predictor.py\<close>)\<close>

text \<open>\<^verbatim>\<open>symptom_disease_map\<close> comes from \<^verbatim>\<open>data/symptoms.py\<close>; it is a parameter: a map from
  a symptom to its diseases, in the order in which the collection is iterated.\<close>

type_synonym disease_map = "string \<rightharpoonup> string list"
type_synonym score_dict = "(string \<times> int) list"

text \<open>Lines 27 to 30, the body of the inner iteration.\<close>

definition bump :: "score_dict \<Rightarrow> string \<Rightarrow> py_error + score_dict" where
  "bump disease_score disease =
     (let ds = (if map_of disease_score disease = None
                then dict_set disease_score disease 0 else disease_score)
      in case dict_getitem ds disease of
           Inl e \<Rightarrow> Inl e
         | Inr c \<Rightarrow> Inr (dict_set ds disease (c + 1)))"

fun count_diseases :: "score_dict \<Rightarrow> string list \<Rightarrow> py_error + score_dict" where
  "count_diseases disease_score [] = Inr disease_score"
| "count_diseases disease_score (disease # rest) =
     (case bump disease_score disease of
        Inl e \<Rightarrow> Inl e
      | Inr ds \<Rightarrow> count_diseases ds rest)"

text \<open>Lines 23 to 30, the iteration over the symptoms.\<close>

fun accumulate :: "disease_map \<Rightarrow> score_dict \<Rightarrow> string list \<Rightarrow> py_error + score_dict" where
  "accumulate m disease_score [] = Inr disease_score"
| "accumulate m disease_score (symptom # rest) =
     (case m symptom of
        None \<Rightarrow> accumulate m disease_score rest
      | Some diseases \<Rightarrow>
          (case count_diseases disease_score diseases of
             Inl e \<Rightarrow> Inl e
           | Inr ds \<Rightarrow> accumulate m ds rest))"

text \<open>Lines 40 and 41, the list comprehension.\<close>

fun probabilities :: "int \<Rightarrow> score_dict \<Rightarrow> py_error + (string \<times> double) list" where
  "probabilities max_score [] = Inr []"
| "probabilities max_score ((disease, score) # rest) =
     (case py_truediv score max_score of
        Inl e \<Rightarrow> Inl e
      | Inr q \<Rightarrow>
          (case probabilities max_score rest of
             Inl e \<Rightarrow> Inl e
           | Inr rs \<Rightarrow> Inr ((disease, py_round (float_mul q 100) 1) # rs)))"

definition predict_disease ::
  "disease_map \<Rightarrow> string list \<Rightarrow> int \<Rightarrow> py_error + (string \<times> double) list" where
  "predict_disease m symptoms top_n =
     (case accumulate m [] symptoms of
        Inl e \<Rightarrow> Inl e
      | Inr disease_score \<Rightarrow>
          if disease_score = [] then Inr []
          else (case py_max (map snd disease_score) of
                  Inl e \<Rightarrow> Inl e
                | Inr max_score \<Rightarrow>
                    (case probabilities max_score disease_score of
                       Inl e \<Rightarrow> Inl e
                     | Inr results \<Rightarrow> Inr (py_slice_to (sort_reverse snd results) top_n))))"

section \<open>Notions used to state the properties of the scorer\<close>

text \<open>The diseases in the order in which the two nested iterations of \<^verbatim>\<open>predict_disease\<close> meet them,
  with repetitions.\<close>

definition encountered :: "disease_map \<Rightarrow> string list \<Rightarrow> string list" where
  "encountered m symptoms =
     concat (map (\<lambda>s. case m s of None \<Rightarrow> [] | Some ds \<Rightarrow> ds) symptoms)"

text \<open>The order of first occurrence: \<open>first_seen [] xs\<close> keeps the first occurrence of every
  element of \<open>xs\<close>.\<close>

fun first_seen :: "'a list \<Rightarrow> 'a list \<Rightarrow> 'a list" where
  "first_seen seen [] = seen"
| "first_seen seen (x # xs) = first_seen (if x \<in> set seen then seen else seen @ [x]) xs"

text \<open>The dictionary after one pass through the body of the inner iteration.\<close>

definition bump_value :: "score_dict \<Rightarrow> string \<Rightarrow> score_dict" where
  "bump_value ds d =
     (case map_of ds d of None \<Rightarrow> ds @ [(d, 1)] | Some c \<Rightarrow> dict_set ds d (c + 1))"

text \<open>The expression \<^verbatim>\<open>round((score / max_score) * 100, 1)\<close> for a nonzero \<open>max_score\<close>.\<close>

definition prob_of :: "int \<Rightarrow> int \<Rightarrow> double" where
  "prob_of max_score score = py_round (float_mul (fl (of_int score / of_int max_score)) 100) 1"

text \<open>The value of \<^verbatim>\<open>disease_score\<close> after the accumulation, and of \<^verbatim>\<open>results\<close> after the sort.\<close>

definition disease_scores :: "disease_map \<Rightarrow> string list \<Rightarrow> score_dict" where
  "disease_scores m symptoms = fold (\<lambda>d acc. bump_value acc d) (encountered m symptoms) []"

definition ranking :: "disease_map \<Rightarrow> string list \<Rightarrow> (string \<times> double) list" where
  "ranking m symptoms =
     (let ds = disease_scores m symptoms
      in sort_reverse snd (map (\<lambda>(d, s). (d, prob_of (Max (set (map snd ds))) s)) ds))"

text \<open>The association table of the scoring scenario of the specification.\<close>

definition example_map :: disease_map where
  "example_map = [''fever'' \<mapsto> [''flu'', ''malaria''], ''cough'' \<mapsto> [''flu'', ''cold'']]"

section \<open>The symptom extractor (\<^verbatim>\<open>utils.py\<close>)\<close>

text \<open>
  The string methods, the regular expression and the NLTK objects that the extractor calls
  are parameters: \<^verbatim>\<open>str.lower\<close>, \<^verbatim>\<open>re.sub(r'[^\w\s]', ' ', text)\<close>, \<^verbatim>\<open>nltk.word_tokenize\<close>,
  \<^verbatim>\<open>lemmatizer.lemmatize\<close> and the set \<^verbatim>\<open>stop_words\<close>.
\<close>

record nlp =
  lower :: "string \<Rightarrow> string"
  sub_nonword :: "string \<Rightarrow> string"
  word_tokenize :: "string \<Rightarrow> string list"
  lemmatize :: "string \<Rightarrow> string"
  stop_words :: "string set"

text \<open>
  The tables of \<^verbatim>\<open>data/symptoms.py\<close> are parameters as well: the list \<^verbatim>\<open>all_symptoms\<close>, in its
  iteration order, and the dictionary \<^verbatim>\<open>symptom_synonyms\<close> from a symptom to its synonyms.
\<close>

record vocabulary =
  all_symptoms :: "string list"
  symptom_synonyms :: "string \<rightharpoonup> string list"

text \<open>\<^verbatim>\<open>' '.join(ws)\<close> and the slice \<^verbatim>\<open>ws[i:j]\<close> for \<open>i \<le> j \<le> len(ws)\<close>.\<close>

fun join_space :: "string list \<Rightarrow> string" where
  "join_space [] = []"
| "join_space [w] = w"
| "join_space (w # ws) = w @ '' '' @ join_space ws"

definition py_slice :: "'a list \<Rightarrow> nat \<Rightarrow> nat \<Rightarrow> 'a list" where
  "py_slice ws i j = take (j - i) (drop i ws)"

text \<open>The test of lines 65 and 74:
  \<^verbatim>\<open>phrase == symptom.lower() or phrase in symptom_synonyms.get(symptom, [])\<close>.\<close>

definition matches :: "nlp \<Rightarrow> vocabulary \<Rightarrow> string \<Rightarrow> string \<Rightarrow> bool" where
  "matches env voc phrase symptom \<longleftrightarrow>
     phrase = lower env symptom
     \<or> phrase \<in> set (case symptom_synonyms voc symptom of None \<Rightarrow> [] | Some syns \<Rightarrow> syns)"

text \<open>The iteration over \<^verbatim>\<open>all_symptoms\<close>, left at the first match (\<^verbatim>\<open>break\<close>).\<close>

fun scan_symptoms :: "nlp \<Rightarrow> vocabulary \<Rightarrow> string \<Rightarrow> string list \<Rightarrow> string set \<Rightarrow> string set" where
  "scan_symptoms env voc phrase [] recognized = recognized"
| "scan_symptoms env voc phrase (symptom # rest) recognized =
     (if matches env voc phrase symptom then insert symptom recognized
      else scan_symptoms env voc phrase rest recognized)"

text \<open>Lines 62 to 67: the single words.\<close>

definition single_word_pass :: "nlp \<Rightarrow> vocabulary \<Rightarrow> string list \<Rightarrow> string set \<Rightarrow> string set" where
  "single_word_pass env voc words recognized =
     fold (\<lambda>word r. scan_symptoms env voc word (all_symptoms voc) r) words recognized"

text \<open>Lines 70 to 76: the phrases \<^verbatim>\<open>words[i:j]\<close> for \<open>i\<close> in \<^verbatim>\<open>range(len(words))\<close> and \<open>j\<close> in
  \<^verbatim>\<open>range(i+1, min(i+5, len(words)+1))\<close>.\<close>

definition multi_word_pass :: "nlp \<Rightarrow> vocabulary \<Rightarrow> string list \<Rightarrow> string set \<Rightarrow> string set" where
  "multi_word_pass env voc words recognized =
     fold (\<lambda>i r.
         fold (\<lambda>j r'. scan_symptoms env voc (join_space (py_slice words i j)) (all_symptoms voc) r')
           [i + 1 ..< min (i + 5) (length words + 1)] r)
       [0 ..< length words] recognized"

text \<open>Lines 53 to 56: the cleaned, filtered and lemmatized words of the text.\<close>

definition clean_words :: "nlp \<Rightarrow> string \<Rightarrow> string list" where
  "clean_words env text =
     (let text = lower env text;
          text = sub_nonword env text;
          words = word_tokenize env text
      in map (lemmatize env) (filter (\<lambda>word. word \<notin> stop_words env) words))"

definition extract_symptoms_from_text :: "nlp \<Rightarrow> vocabulary \<Rightarrow> string \<Rightarrow> string set" where
  "extract_symptoms_from_text env voc text =
     (let words = clean_words env text;
          recognized = {};
          recognized = single_word_pass env voc words recognized;
          recognized = multi_word_pass env voc words recognized
      in recognized)"

text \<open>\<^verbatim>\<open>preprocess_symptoms\<close> returns \<^verbatim>\<open>list(processed_symptoms)\<close>: the elements of the set, in
  the iteration order of the set. The model returns the set.\<close>

definition preprocess_symptoms :: "nlp \<Rightarrow> vocabulary \<Rightarrow> string list \<Rightarrow> string \<Rightarrow> string set" where
  "preprocess_symptoms env voc selected_symptoms additional_symptoms_text =
     (let processed_symptoms = set selected_symptoms
      in if additional_symptoms_text \<noteq> []
         then processed_symptoms \<union> extract_symptoms_from_text env voc additional_symptoms_text
         else processed_symptoms)"

text \<open>\<^verbatim>\<open>get_disease_info\<close>: \<^verbatim>\<open>diseases_data.get(disease_name, None)\<close>, where \<^verbatim>\<open>diseases_data\<close> of
  \<^verbatim>\<open>data/diseases.py\<close> is a parameter. \<open>None\<close> is Python's \<^verbatim>\<open>None\<close>.\<close>

definition dict_get :: "('k \<rightharpoonup> 'v) \<Rightarrow> 'k \<Rightarrow> 'v option \<Rightarrow> 'v option" where
  "dict_get d k dflt = (case d k of None \<Rightarrow> dflt | Some v \<Rightarrow> Some v)"

definition get_disease_info :: "(string \<rightharpoonup> 'info) \<Rightarrow> string \<Rightarrow> 'info option" where
  "get_disease_info diseases_data disease_name = dict_get diseases_data disease_name None"

subsection \<open>The extraction algorithm as the specification words it\<close>



subsection \<open>An instance of the parameters\<close>

text \<open>
  For concrete evaluations: ASCII text, on which \<^verbatim>\<open>str.lower\<close> maps \<open>A\<close> to \<open>Z\<close> to \<open>a\<close> to \<open>z\<close>
  and \<^verbatim>\<open>\w\<close>, \<^verbatim>\<open>\s\<close> are the ASCII word and whitespace characters; a tokenizer that splits at
  whitespace, as \<^verbatim>\<open>word_tokenize\<close> does on the words used here once the punctuation is gone; an
  excerpt of the lemmatizer (the plural nouns listed, every other word unchanged) and an
  excerpt of the English stop word list.
\<close>

definition ascii_lower_char :: "char \<Rightarrow> char" where
  "ascii_lower_char c =
     (let n = (of_char c :: nat) in if 65 \<le> n \<and> n \<le> 90 then char_of (n + 32) else c)"

definition is_space_char :: "char \<Rightarrow> bool" where
  "is_space_char c \<longleftrightarrow> (let n = (of_char c :: nat) in (9 \<le> n \<and> n \<le> 13) \<or> (28 \<le> n \<and> n \<le> 32))"

definition is_word_char :: "char \<Rightarrow> bool" where
  "is_word_char c \<longleftrightarrow>
     (let n = (of_char c :: nat)
      in (48 \<le> n \<and> n \<le> 57) \<or> (65 \<le> n \<and> n \<le> 90) \<or> n = 95 \<or> (97 \<le> n \<and> n \<le> 122))"

fun split_whitespace :: "string \<Rightarrow> string \<Rightarrow> string list" where
  "split_whitespace cur [] = (if cur = [] then [] else [cur])"
| "split_whitespace cur (c # cs) =
     (if is_space_char c
      then (if cur = [] then split_whitespace [] cs else cur # split_whitespace [] cs)
      else split_whitespace (cur @ [c]) cs)"

definition demo_lemmatize :: "string \<Rightarrow> string" where
  "demo_lemmatize w =
     (case map_of [(''headaches'', ''headache''), (''aches'', ''ache''), (''chills'', ''chill'')] w of
        None \<Rightarrow> w
      | Some lemma \<Rightarrow> lemma)"

definition demo_nlp :: nlp where
  "demo_nlp =
     \<lparr> lower = map ascii_lower_char,
       sub_nonword = map (\<lambda>c. if is_word_char c \<or> is_space_char c then c else CHR '' ''),
       word_tokenize = split_whitespace [],
       lemmatize = demo_lemmatize,
       stop_words = set [''i'', ''me'', ''my'', ''a'', ''an'', ''the'', ''and'', ''in'', ''of'',
                         ''is'', ''have'', ''has'', ''with'', ''on''] \<rparr>"

definition demo_vocabulary :: vocabulary where
  "demo_vocabulary =
     \<lparr> all_symptoms = [''fever'', ''headache'', ''rhinorrhea'', ''chest pain''],
       symptom_synonyms = [''rhinorrhea'' \<mapsto> [''runny nose''],
                           ''chest pain'' \<mapsto> [''pain in chest'']] \<rparr>"

section \<open>The two functions on a store of Python objects\<close>

text \<open>
  Lists, sets and dictionaries are mutable objects that are reached through references.
  To state which objects a call changes, the functions are written once more on an explicit
  store: a map from addresses to objects, with the next free address. The tables of
  \<^verbatim>\<open>data/symptoms.py\<close> are objects of the store, at the addresses that the global names are
  bound to. A dictionary of lists is one object together with its lists. \<open>None\<close> stands
  for a call that raises.
\<close>

type_synonym addr = nat

datatype pyobj =
    StrList "string list"
  | StrSet "string set"
  | ListDict "string \<rightharpoonup> string list"
  | ScoreDict score_dict
  | ResultList "(string \<times> double) list"

record store =
  heap :: "addr \<rightharpoonup> pyobj"
  next_addr :: addr

record globals =
  all_symptoms_at :: addr
  symptom_synonyms_at :: addr
  symptom_disease_map_at :: addr

text \<open>A new object (\<^verbatim>\<open>set()\<close>, \<^verbatim>\<open>{}\<close>, \<^verbatim>\<open>set(xs)\<close>, \<^verbatim>\<open>list(s)\<close>, a comprehension, a slice) and the
  update of an object in place (\<^verbatim>\<open>add\<close>, \<^verbatim>\<open>update\<close>, \<^verbatim>\<open>d[k] = v\<close>, \<^verbatim>\<open>sort\<close>).\<close>

definition alloc :: "pyobj \<Rightarrow> store \<Rightarrow> addr \<times> store" where
  "alloc obj s =
     (next_addr s, \<lparr> heap = (heap s)(next_addr s \<mapsto> obj), next_addr = Suc (next_addr s) \<rparr>)"

definition overwrite :: "addr \<Rightarrow> pyobj \<Rightarrow> store \<Rightarrow> store" where
  "overwrite a obj s = s \<lparr> heap := (heap s)(a \<mapsto> obj) \<rparr>"

definition read_list :: "store \<Rightarrow> addr \<Rightarrow> string list option" where
  "read_list s a = (case heap s a of Some (StrList xs) \<Rightarrow> Some xs | _ \<Rightarrow> None)"

definition read_set :: "store \<Rightarrow> addr \<Rightarrow> string set option" where
  "read_set s a = (case heap s a of Some (StrSet xs) \<Rightarrow> Some xs | _ \<Rightarrow> None)"

definition read_dict :: "store \<Rightarrow> addr \<Rightarrow> (string \<rightharpoonup> string list) option" where
  "read_dict s a = (case heap s a of Some (ListDict d) \<Rightarrow> Some d | _ \<Rightarrow> None)"

definition read_scores :: "store \<Rightarrow> addr \<Rightarrow> score_dict option" where
  "read_scores s a = (case heap s a of Some (ScoreDict d) \<Rightarrow> Some d | _ \<Rightarrow> None)"

text \<open>A \<^verbatim>\<open>for\<close> statement whose body changes the store.\<close>

fun for_each :: "('a \<Rightarrow> store \<Rightarrow> store option) \<Rightarrow> 'a list \<Rightarrow> store \<Rightarrow> store option" where
  "for_each body [] s = Some s"
| "for_each body (x # xs) s =
     (case body x s of None \<Rightarrow> None | Some s' \<Rightarrow> for_each body xs s')"

subsection \<open>\<^verbatim>\<open>extract_symptoms_from_text\<close> and \<^verbatim>\<open>preprocess_symptoms\<close>\<close>

fun scan_symptoms_h ::
  "nlp \<Rightarrow> globals \<Rightarrow> string \<Rightarrow> string list \<Rightarrow> addr \<Rightarrow> store \<Rightarrow> store option" where
  "scan_symptoms_h env g phrase [] recognized s = Some s"
| "scan_symptoms_h env g phrase (symptom # rest) recognized s =
     (case read_dict s (symptom_synonyms_at g) of
        None \<Rightarrow> None
      | Some synonyms \<Rightarrow>
          if phrase = lower env symptom
             \<or> phrase \<in> set (case synonyms symptom of None \<Rightarrow> [] | Some syns \<Rightarrow> syns)
          then (case read_set s recognized of
                  None \<Rightarrow> None
                | Some r \<Rightarrow> Some (overwrite recognized (StrSet (insert symptom r)) s))
          else scan_symptoms_h env g phrase rest recognized s)"

definition scan_phrase_h :: "nlp \<Rightarrow> globals \<Rightarrow> addr \<Rightarrow> string \<Rightarrow> store \<Rightarrow> store option" where
  "scan_phrase_h env g recognized phrase s =
     (case read_list s (all_symptoms_at g) of
        None \<Rightarrow> None
      | Some symptoms \<Rightarrow> scan_symptoms_h env g phrase symptoms recognized s)"

definition extract_symptoms_from_text_h ::
  "nlp \<Rightarrow> globals \<Rightarrow> string \<Rightarrow> store \<Rightarrow> (addr \<times> store) option" where
  "extract_symptoms_from_text_h env g text s =
     (let words = clean_words env text;
          (recognized, s) = alloc (StrSet {}) s
      in case for_each (scan_phrase_h env g recognized) words s of
           None \<Rightarrow> None
         | Some s \<Rightarrow>
             (case for_each
                     (\<lambda>i. for_each
                             (\<lambda>j. scan_phrase_h env g recognized (join_space (py_slice words i j)))
                             [i + 1 ..< min (i + 5) (length words + 1)])
                     [0 ..< length words] s of
                None \<Rightarrow> None
              | Some s \<Rightarrow> Some (recognized, s)))"

text \<open>\<open>set_order\<close> is the order in which \<^verbatim>\<open>list(s)\<close> enumerates a set; it is a parameter.
  \<open>selected_symptoms\<close> is the address of the list that the caller passes.\<close>

definition preprocess_symptoms_h ::
  "nlp \<Rightarrow> (string set \<Rightarrow> string list) \<Rightarrow> globals \<Rightarrow> addr \<Rightarrow> string \<Rightarrow> store
     \<Rightarrow> (addr \<times> store) option" where
  "preprocess_symptoms_h env set_order g selected_symptoms additional_symptoms_text s =
     (case read_list s selected_symptoms of
        None \<Rightarrow> None
      | Some selected \<Rightarrow>
          let (processed_symptoms, s) = alloc (StrSet (set selected)) s
          in case (if additional_symptoms_text \<noteq> []
                   then (case extract_symptoms_from_text_h env g additional_symptoms_text s of
                           None \<Rightarrow> None
                         | Some (text_symptoms, s) \<Rightarrow>
                             (case (read_set s text_symptoms, read_set s processed_symptoms) of
                                (Some ts, Some ps) \<Rightarrow>
                                  Some (overwrite processed_symptoms (StrSet (ps \<union> ts)) s)
                              | _ \<Rightarrow> None))
                   else Some s) of
               None \<Rightarrow> None
             | Some s \<Rightarrow>
                 (case read_set s processed_symptoms of
                    None \<Rightarrow> None
                  | Some ps \<Rightarrow> Some (alloc (StrList (set_order ps)) s)))"

subsection \<open>\<^verbatim>\<open>predict_disease\<close>\<close>

definition bump_h :: "addr \<Rightarrow> string \<Rightarrow> store \<Rightarrow> store option" where
  "bump_h disease_score disease s =
     (case read_scores s disease_score of
        None \<Rightarrow> None
      | Some ds \<Rightarrow>
          (case bump ds disease of
             Inl e \<Rightarrow> None
           | Inr ds' \<Rightarrow> Some (overwrite disease_score (ScoreDict ds') s)))"

definition count_symptom_h :: "globals \<Rightarrow> addr \<Rightarrow> string \<Rightarrow> store \<Rightarrow> store option" where
  "count_symptom_h g disease_score symptom s =
     (case read_dict s (symptom_disease_map_at g) of
        None \<Rightarrow> None
      | Some m \<Rightarrow>
          (case m symptom of
             None \<Rightarrow> Some s
           | Some diseases \<Rightarrow> for_each (bump_h disease_score) diseases s))"

definition predict_disease_h :: "globals \<Rightarrow> addr \<Rightarrow> int \<Rightarrow> store \<Rightarrow> (addr \<times> store) option" where
  "predict_disease_h g symptoms top_n s =
     (case read_list s symptoms of
        None \<Rightarrow> None
      | Some symptom_list \<Rightarrow>
          let (disease_score, s) = alloc (ScoreDict []) s
          in case for_each (count_symptom_h g disease_score) symptom_list s of
               None \<Rightarrow> None
             | Some s \<Rightarrow>
                 (case read_scores s disease_score of
                    None \<Rightarrow> None
                  | Some ds \<Rightarrow>
                      if ds = [] then Some (alloc (ResultList []) s)
                      else (case py_max (map snd ds) of
                              Inl e \<Rightarrow> None
                            | Inr max_score \<Rightarrow>
                                (case probabilities max_score ds of
                                   Inl e \<Rightarrow> None
                                 | Inr rs \<Rightarrow>
                                     let (results, s) = alloc (ResultList rs) s;
                                         sorted_results = sort_reverse snd rs;
                                         s = overwrite results (ResultList sorted_results) s
                                     in Some (alloc (ResultList (py_slice_to sorted_results top_n)) s)))))"

text \<open>A store in which the three global names are bound to tables, the tables of
  \<open>voc\<close> and \<open>m\<close>, at addresses that are in use.\<close>

definition tables_at :: "globals \<Rightarrow> vocabulary \<Rightarrow> disease_map \<Rightarrow> store \<Rightarrow> bool" where
  "tables_at g voc m s \<longleftrightarrow>
     heap s (all_symptoms_at g) = Some (StrList (all_symptoms voc))
     \<and> heap s (symptom_synonyms_at g) = Some (ListDict (symptom_synonyms voc))
     \<and> heap s (symptom_disease_map_at g) = Some (ListDict m)
     \<and> all_symptoms_at g < next_addr s
     \<and> symptom_synonyms_at g < next_addr s
     \<and> symptom_disease_map_at g < next_addr s"

text \<open>The same for the vocabulary alone and for the association table alone.\<close>

definition vocabulary_at :: "globals \<Rightarrow> vocabulary \<Rightarrow> store \<Rightarrow> bool" where
  "vocabulary_at g voc s \<longleftrightarrow>
     heap s (all_symptoms_at g) = Some (StrList (all_symptoms voc))
     \<and> heap s (symptom_synonyms_at g) = Some (ListDict (symptom_synonyms voc))"

definition disease_map_at :: "globals \<Rightarrow> disease_map \<Rightarrow> store \<Rightarrow> bool" where
  "disease_map_at g m s \<longleftrightarrow> heap s (symptom_disease_map_at g) = Some (ListDict m)"

text \<open>A store for concrete evaluations: the three tables at the addresses 0 to 2 and two
  argument lists at the addresses 3 and 4.\<close>

definition demo_globals :: globals where
  "demo_globals = \<lparr> all_symptoms_at = 0, symptom_synonyms_at = 1, symptom_disease_map_at = 2 \<rparr>"

definition demo_store :: store where
  "demo_store =
     \<lparr> heap = [0 \<mapsto> StrList (all_symptoms demo_vocabulary),
               1 \<mapsto> ListDict (symptom_synonyms demo_vocabulary),
               2 \<mapsto> ListDict example_map,
               3 \<mapsto> StrList [''cough''],
               4 \<mapsto> StrList [''fever'', ''cough'']],
       next_addr = 5 \<rparr>"

section \<open>Rounding to the nearest float\<close>

lemma pow2_powi: "pow2 e = 2 powi e"
  by (simp add: pow2_def power_int_def field_simps)

lemma pow2_pos: "0 < pow2 e"
  by (simp add: pow2_powi)

lemma pow2_add: "pow2 (i + j) = pow2 i * pow2 j"
  by (simp add: pow2_powi power_int_add)

lemma pow2_mono: "i \<le> j \<Longrightarrow> pow2 i \<le> pow2 j"
  by (simp add: pow2_powi power_int_increasing)

lemma round_half_even_le: "x \<le> of_int n \<Longrightarrow> round_half_even x \<le> n"
  unfolding round_half_even_def Let_def
  by (auto simp: floor_le_iff le_floor_iff)

lemma round_half_even_ge: "of_int n \<le> x \<Longrightarrow> n \<le> round_half_even x"
  unfolding round_half_even_def Let_def
  by (auto simp: le_floor_iff) (linarith)+

lemma round_half_even_of_int: "round_half_even (of_int n) = n"
  by (simp add: round_half_even_def)

lemma ilog2_le:
  assumes "0 < x" shows "pow2 (ilog2 x) \<le> x"
proof -
  obtain a b where q: "quotient_of x = (a, b)" by (cases "quotient_of x")
  then have b: "0 < b" and x: "x = of_int a / of_int b"
    by (simp_all add: quotient_of_denom_pos quotient_of_div)
  from assms x b have a: "0 < a" by (simp add: zero_less_divide_iff)
  let ?k = "bitlen a - bitlen b"
  show ?thesis
  proof (cases "pow2 ?k \<le> x")
    case True
    with q assms show ?thesis by (simp add: ilog2_def Let_def)
  next
    case False
    have la: "(2::int) ^ nat (bitlen a - 1) \<le> a" using bitlen_bounds[OF a] by simp
    have lb: "b < (2::int) ^ nat (bitlen b)" using bitlen_bounds[OF b] by simp
    have la1: "1 \<le> bitlen a" using a by (simp add: bitlen_alt_def)
    have "pow2 (bitlen a - 1) \<le> of_int a"
    proof -
      have "(of_int ((2::int) ^ nat (bitlen a - 1)) :: rat) \<le> of_int a" using la by (simp only: of_int_le_iff)
      then show ?thesis using la1 by (simp add: pow2_def)
    qed
    moreover have "of_int b \<le> pow2 (bitlen b)"
    proof -
      have "(of_int b :: rat) \<le> of_int ((2::int) ^ nat (bitlen b))" using lb by (simp only: of_int_le_iff)
      then show ?thesis using bitlen_nonneg[of b] by (simp add: pow2_def)
    qed
    ultimately have "pow2 (bitlen a - 1) / pow2 (bitlen b) \<le> of_int a / of_int b"
      using b a pow2_pos by (intro frac_le) (auto intro: less_imp_le)
    moreover have "pow2 (?k - 1) = pow2 (bitlen a - 1) / pow2 (bitlen b)"
      by (simp add: pow2_powi power_int_diff)
    ultimately have "pow2 (?k - 1) \<le> x" using x by simp
    with False q assms show ?thesis by (simp add: ilog2_def Let_def)
  qed
qed

lemma ilog2_gt:
  assumes "0 < x" shows "x < pow2 (ilog2 x + 1)"
proof -
  obtain a b where q: "quotient_of x = (a, b)" by (cases "quotient_of x")
  then have b: "0 < b" and x: "x = of_int a / of_int b"
    by (simp_all add: quotient_of_denom_pos quotient_of_div)
  from assms x b have a: "0 < a" by (simp add: zero_less_divide_iff)
  let ?k = "bitlen a - bitlen b"
  show ?thesis
  proof (cases "pow2 ?k \<le> x")
    case False
    with q assms show ?thesis by (simp add: ilog2_def Let_def)
  next
    case True
    have la: "a < (2::int) ^ nat (bitlen a)" using bitlen_bounds[OF a] by simp
    have lb: "(2::int) ^ nat (bitlen b - 1) \<le> b" using bitlen_bounds[OF b] by simp
    have lb1: "1 \<le> bitlen b" using b by (simp add: bitlen_alt_def)
    have "of_int a < pow2 (bitlen a)"
    proof -
      have "(of_int a :: rat) < of_int ((2::int) ^ nat (bitlen a))" using la by (simp only: of_int_less_iff)
      then show ?thesis using bitlen_nonneg[of a] by (simp add: pow2_def)
    qed
    moreover have "pow2 (bitlen b - 1) \<le> of_int b"
    proof -
      have "(of_int ((2::int) ^ nat (bitlen b - 1)) :: rat) \<le> of_int b" using lb by (simp only: of_int_le_iff)
      then show ?thesis using lb1 by (simp add: pow2_def)
    qed
    ultimately have "of_int a / of_int b < pow2 (bitlen a) / pow2 (bitlen b - 1)"
      using b a pow2_pos[of "bitlen b - 1"] by (intro frac_less) (auto intro: less_imp_le)
    moreover have "pow2 (?k + 1) = pow2 (bitlen a) / pow2 (bitlen b - 1)"
      by (simp add: pow2_powi power_int_diff power_int_add)
    ultimately have "x < pow2 (?k + 1)" using x by simp
    with True q assms show ?thesis by (simp add: ilog2_def Let_def)
  qed
qed

lemma fl_zero: "fl 0 = 0"
  by (simp add: fl_def round_half_even_def)

lemma fl_nonneg: "0 \<le> x \<Longrightarrow> 0 \<le> fl x"
proof -
  assume "0 \<le> x"
  then have "of_int 0 \<le> x / pow2 (ulp_exp x)" using pow2_pos[of "ulp_exp x"] by simp
  then have "0 \<le> round_half_even (x / pow2 (ulp_exp x))" by (rule round_half_even_ge)
  then show ?thesis using pow2_pos[of "ulp_exp x"] by (simp add: fl_def)
qed

lemma ulp_exp_le0:
  assumes "0 < x" "x \<le> 1024" shows "ulp_exp x \<le> 0"
proof -
  have "ilog2 x \<le> 10"
  proof (rule ccontr)
    assume "\<not> ilog2 x \<le> 10"
    then have "pow2 11 \<le> pow2 (ilog2 x)" by (intro pow2_mono) simp
    also have "\<dots> \<le> x" using assms(1) by (rule ilog2_le)
    finally show False using assms(2) by (simp add: pow2_def)
  qed
  then show ?thesis by (simp add: ulp_exp_def)
qed

lemma fl_le_int:
  assumes "0 \<le> x" "x \<le> of_int n" "x \<le> 1024" shows "fl x \<le> of_int n"
proof (cases "x = 0")
  case True
  with assms show ?thesis by (simp add: fl_zero)
next
  case False
  with assms have pos: "0 < x" by simp
  define e where "e = ulp_exp x"
  have e: "e \<le> 0" unfolding e_def using pos assms(3) by (rule ulp_exp_le0)
  have p: "pow2 e = 1 / 2 ^ nat (- e)" using e by (simp add: pow2_def)
  have "x / pow2 e \<le> of_int n / pow2 e" using assms(2) pow2_pos[of e] by (simp add: divide_right_mono)
  also have "of_int n / pow2 e = of_int (n * 2 ^ nat (- e))" by (simp add: p)
  finally have "round_half_even (x / pow2 e) \<le> n * 2 ^ nat (- e)" by (rule round_half_even_le)
  then have "(of_int (round_half_even (x / pow2 e)) :: rat) \<le> of_int (n * 2 ^ nat (- e))"
    by (simp only: of_int_le_iff)
  then have "of_int (round_half_even (x / pow2 e)) * pow2 e \<le> of_int (n * 2 ^ nat (- e)) * pow2 e"
    using pow2_pos[of e] by (simp add: mult_right_mono)
  also have "of_int (n * 2 ^ nat (- e)) * pow2 e = of_int n" by (simp add: p)
  finally show ?thesis by (simp add: fl_def e_def)
qed

section \<open>The accumulated scores\<close>

lemma dict_set_absent: "map_of d k = None \<Longrightarrow> dict_set d k v = d @ [(k, v)]"
  by (induction d) (auto split: if_splits)

lemma map_of_dict_set: "map_of (dict_set d k v) = (map_of d)(k \<mapsto> v)"
  by (induction d) (auto simp: fun_eq_iff)

lemma keys_dict_set_present: "map_of d k = Some c \<Longrightarrow> map fst (dict_set d k v) = map fst d"
  by (induction d) (auto split: if_splits)

lemma dict_set_twice: "dict_set (dict_set d k v) k w = dict_set d k w"
  by (induction d) auto

lemma bump_value_alt:
  "bump_value ds d = dict_set ds d (case map_of ds d of None \<Rightarrow> 1 | Some c \<Rightarrow> c + 1)"
  by (cases "map_of ds d") (simp_all add: bump_value_def dict_set_absent)

lemma bump_eq: "bump ds d = Inr (bump_value ds d)"
  by (cases "map_of ds d")
     (simp_all add: bump_def bump_value_alt dict_getitem_def map_of_dict_set dict_set_twice Let_def)

lemma keys_bump_value:
  "map fst (bump_value ds d) = (if d \<in> set (map fst ds) then map fst ds else map fst ds @ [d])"
proof (cases "map_of ds d")
  case None
  then have "d \<notin> set (map fst ds)" by (simp add: map_of_eq_None_iff)
  with None show ?thesis by (simp add: bump_value_def)
next
  case (Some c)
  then have "d \<in> set (map fst ds)" by (metis map_of_eq_None_iff option.distinct(1) set_map)
  with Some show ?thesis by (simp add: bump_value_def keys_dict_set_present)
qed

lemma map_of_bump_value:
  "map_of (bump_value ds d) =
     (map_of ds)(d \<mapsto> (case map_of ds d of None \<Rightarrow> 1 | Some c \<Rightarrow> c + 1))"
  by (simp add: bump_value_alt map_of_dict_set)

lemma count_diseases_eq: "count_diseases ds xs = Inr (fold (\<lambda>d acc. bump_value acc d) xs ds)"
  by (induction xs arbitrary: ds) (simp_all add: bump_eq)

lemma accumulate_eq:
  "accumulate m ds symptoms = Inr (fold (\<lambda>d acc. bump_value acc d) (encountered m symptoms) ds)"
  by (induction symptoms arbitrary: ds)
     (simp_all add: encountered_def count_diseases_eq split: option.splits)

lemma keys_fold_bump:
  "map fst (fold (\<lambda>d acc. bump_value acc d) xs ds) = first_seen (map fst ds) xs"
  by (induction xs arbitrary: ds) (simp_all add: keys_bump_value)

lemma distinct_first_seen: "distinct seen \<Longrightarrow> distinct (first_seen seen xs)"
  by (induction xs arbitrary: seen) simp_all

lemma set_first_seen: "set (first_seen seen xs) = set seen \<union> set xs"
  by (induction xs arbitrary: seen) auto

lemma map_of_fold_bump:
  "map_of (fold (\<lambda>d acc. bump_value acc d) xs ds) d =
     (case map_of ds d of
        None \<Rightarrow> if d \<in> set xs then Some (int (count_list xs d)) else None
      | Some c \<Rightarrow> Some (c + int (count_list xs d)))"
  by (induction xs arbitrary: ds) (auto simp: map_of_bump_value split: option.splits)

lemma py_max_eq: "xs \<noteq> [] \<Longrightarrow> py_max xs = Inr (Max (set xs))"
  by (cases xs) (simp_all add: py_max_def Max.set_eq_fold del: set_simps)

lemma probabilities_eq:
  "max_score \<noteq> 0 \<Longrightarrow>
   probabilities max_score ds = Inr (map (\<lambda>(d, s). (d, prob_of max_score s)) ds)"
  by (induction ds) (auto simp: py_truediv_def prob_of_def)

lemma accumulate_scores: "accumulate m [] symptoms = Inr (disease_scores m symptoms)"
  by (simp add: accumulate_eq disease_scores_def)

lemma keys_disease_scores:
  "map fst (disease_scores m symptoms) = first_seen [] (encountered m symptoms)"
  by (simp add: disease_scores_def keys_fold_bump)

lemma distinct_disease_scores: "distinct (map fst (disease_scores m symptoms))"
  by (simp add: keys_disease_scores distinct_first_seen)

lemma disease_scores_count:
  assumes "(d, c) \<in> set (disease_scores m symptoms)"
  shows "c = int (count_list (encountered m symptoms) d)" and "d \<in> set (encountered m symptoms)"
proof -
  have "map_of (disease_scores m symptoms) d = Some c"
    using assms distinct_disease_scores by simp
  then have "(if d \<in> set (encountered m symptoms)
              then Some (int (count_list (encountered m symptoms) d)) else None) = Some c"
    by (simp add: disease_scores_def map_of_fold_bump)
  then show "c = int (count_list (encountered m symptoms) d)" and "d \<in> set (encountered m symptoms)"
    by (simp_all split: if_splits)
qed

lemma disease_scores_ge1:
  assumes "(d, c) \<in> set (disease_scores m symptoms)" shows "1 \<le> c"
proof -
  have "0 < count_list (encountered m symptoms) d"
    using disease_scores_count(2)[OF assms] count_list_0_iff[of "encountered m symptoms" d] by simp
  then show ?thesis using disease_scores_count(1)[OF assms] by simp
qed

lemma max_score_props:
  assumes "disease_scores m symptoms \<noteq> []"
  defines "mx \<equiv> Max (set (map snd (disease_scores m symptoms)))"
  shows "1 \<le> mx" and "mx \<in> snd ` set (disease_scores m symptoms)"
    and "\<And>d c. (d, c) \<in> set (disease_scores m symptoms) \<Longrightarrow> c \<le> mx"
proof -
  let ?S = "set (map snd (disease_scores m symptoms))"
  have fin: "finite ?S" and ne: "?S \<noteq> {}" using assms(1) by simp_all
  from Max_in[OF fin ne] show in_set: "mx \<in> snd ` set (disease_scores m symptoms)"
    by (simp add: mx_def)
  then obtain d where "(d, mx) \<in> set (disease_scores m symptoms)" by force
  then show "1 \<le> mx" by (rule disease_scores_ge1)
  fix d c assume "(d, c) \<in> set (disease_scores m symptoms)"
  then have "c \<in> ?S" by force
  then show "c \<le> mx" unfolding mx_def using fin by (rule_tac Max_ge)
qed

section \<open>The ranking\<close>

lemma predict_disease_eq:
  "predict_disease m symptoms top_n = Inr (py_slice_to (ranking m symptoms) top_n)"
proof (cases "disease_scores m symptoms = []")
  case True
  then show ?thesis
    by (simp add: predict_disease_def accumulate_scores ranking_def sort_reverse_def py_slice_to_def)
next
  case False
  then have "Max (set (map snd (disease_scores m symptoms))) \<noteq> 0"
    using max_score_props(1)[OF False] by simp
  with False show ?thesis
    by (simp add: predict_disease_def accumulate_scores ranking_def py_max_eq probabilities_eq
        Let_def del: set_map)
qed

lemma sorted_sort_reverse: "sorted_wrt (\<lambda>p q. q \<le> p) (map f (sort_reverse f xs))"
proof -
  have "sorted (map (\<lambda>x. - f x) (sort_key (\<lambda>x. - f x) xs))" by (rule sorted_sort_key)
  then show ?thesis by (simp add: sort_reverse_def sorted_wrt_map sorted_map)
qed

lemma sorted_ranking: "sorted_wrt (\<lambda>p q. q \<le> p) (map snd (ranking m symptoms))"
  by (simp add: ranking_def Let_def sorted_sort_reverse)

lemma slice_prefix: "\<exists>k. py_slice_to xs n = take k xs"
  by (auto simp: py_slice_to_def)

lemma sorted_slice:
  "sorted_wrt P (map f xs) \<Longrightarrow> sorted_wrt P (map f (py_slice_to xs n))"
proof -
  assume a: "sorted_wrt P (map f xs)"
  obtain k where k: "py_slice_to xs n = take k xs" using slice_prefix by blast
  have "sorted_wrt P (take k (map f xs))" using a by (rule sorted_wrt_take)
  then show ?thesis by (simp add: k take_map)
qed

lemma length_slice: "0 \<le> n \<Longrightarrow> int (length (py_slice_to xs n)) \<le> n"
  by (simp add: py_slice_to_def)

lemma length_slice_le: "length (py_slice_to xs n) \<le> length xs"
  by (auto simp: py_slice_to_def)

lemma length_ranking: "length (ranking m symptoms) = length (disease_scores m symptoms)"
  by (simp add: ranking_def Let_def sort_reverse_def)

lemma prob_of_bounds:
  assumes "0 \<le> s" "s \<le> mx" "1 \<le> mx"
  shows "0 \<le> prob_of mx s" and "prob_of mx s \<le> 100"
    and "\<exists>k. 0 \<le> k \<and> k \<le> 1000 \<and> prob_of mx s = fl (of_int k / 10)"
proof -
  define q where "q = fl (of_int s / of_int mx)"
  define t where "t = fl (q * 100)"
  define k where "k = round_half_even (t * 10)"
  have x0: "(0::rat) \<le> of_int s / of_int mx" using assms by simp
  have x1: "(of_int s / of_int mx :: rat) \<le> of_int 1" using assms by simp
  have q0: "0 \<le> q" unfolding q_def using x0 by (rule fl_nonneg)
  have q1: "q \<le> of_int 1" unfolding q_def using x0 x1 by (rule fl_le_int) (use x1 in simp)
  have t0: "0 \<le> t" unfolding t_def using q0 by (intro fl_nonneg) simp
  have t1: "t \<le> of_int 100" unfolding t_def using q0 q1 by (intro fl_le_int) simp_all
  have k0: "0 \<le> k" unfolding k_def using t0 by (intro round_half_even_ge) simp
  have k1: "k \<le> 1000" unfolding k_def using t1 by (intro round_half_even_le) simp
  have p: "prob_of mx s = fl (of_int k / 10)"
    by (simp add: prob_of_def py_round_def float_mul_def k_def t_def q_def)
  show "0 \<le> prob_of mx s" unfolding p using k0 by (intro fl_nonneg) simp
  have "fl (of_int k / 10) \<le> of_int 100" using k0 k1 by (intro fl_le_int) simp_all
  then show "prob_of mx s \<le> 100" by (simp add: p)
  show "\<exists>k. 0 \<le> k \<and> k \<le> 1000 \<and> prob_of mx s = fl (of_int k / 10)" using k0 k1 p by blast
qed

lemma fl_1: "fl 1 = 1" by code_simp

lemma fl_100: "fl 100 = 100" by code_simp

lemma prob_of_max: "1 \<le> mx \<Longrightarrow> prob_of mx mx = 100"
  by (simp add: prob_of_def py_round_def float_mul_def fl_1 fl_100 round_half_even_def)

lemma set_ranking:
  "set (ranking m symptoms) =
     (\<lambda>(d, s). (d, prob_of (Max (set (map snd (disease_scores m symptoms)))) s))
       ` set (disease_scores m symptoms)"
  by (simp add: ranking_def Let_def sort_reverse_def)

lemma set_slice: "set (py_slice_to xs n) \<subseteq> set xs"
  by (auto simp: py_slice_to_def dest: in_set_takeD)

lemma hd_slice:
  assumes "1 \<le> n" "xs \<noteq> []"
  shows "py_slice_to xs n \<noteq> [] \<and> hd (py_slice_to xs n) = hd xs"
proof -
  obtain k where k: "nat n = Suc k" using assms(1) by (cases "nat n") simp_all
  obtain y ys where xs: "xs = y # ys" using assms(2) by (cases xs) simp_all
  have "py_slice_to xs n = take (nat n) xs" using assms(1) by (simp add: py_slice_to_def)
  then show ?thesis by (simp add: k xs)
qed

lemma hd_ranking:
  assumes "disease_scores m symptoms \<noteq> []"
  shows "snd (hd (ranking m symptoms)) = 100"
proof -
  let ?ds = "disease_scores m symptoms"
  let ?mx = "Max (set (map snd ?ds))"
  let ?r = "ranking m symptoms"
  have ne: "?r \<noteq> []" using assms length_ranking[of m symptoms] by auto
  have le: "p \<le> 100" if "(d, p) \<in> set ?r" for d p
  proof -
    from that obtain s where s: "(d, s) \<in> set ?ds" and p: "p = prob_of ?mx s"
      by (auto simp: set_ranking)
    have "0 \<le> s" using disease_scores_ge1[OF s] by simp
    then show ?thesis unfolding p
      using max_score_props(3)[OF assms s] max_score_props(1)[OF assms] by (rule prob_of_bounds(2))
  qed
  obtain d where d: "(d, ?mx) \<in> set ?ds" using max_score_props(2)[OF assms] by force
  have "(d, prob_of ?mx ?mx) \<in> set ?r" using d by (force simp: set_ranking)
  then have top: "(d, 100) \<in> set ?r" using prob_of_max[OF max_score_props(1)[OF assms]] by simp
  obtain x xs where r: "?r = x # xs" using ne by (cases ?r) auto
  have "sorted_wrt (\<lambda>p q. q \<le> p) (map snd (x # xs))" using sorted_ranking[of m symptoms] r by simp
  then have ge: "\<forall>y \<in> set xs. snd y \<le> snd x" by simp
  have "(d, 100) = x \<or> (d, 100) \<in> set xs" using top r by simp
  then have "100 \<le> snd x"
  proof
    assume "(d, 100) = x" then show ?thesis by (metis order_refl snd_conv)
  next
    assume "(d, 100) \<in> set xs" with ge have "snd (d, 100::rat) \<le> snd x" by (rule_tac bspec)
    then show ?thesis by simp
  qed
  moreover have "snd x \<le> 100" using le[of "fst x" "snd x"] r by simp
  ultimately show ?thesis using r by simp
qed

lemma ranking_entry:
  assumes "(d, p) \<in> set (ranking m symptoms)"
  defines "mx \<equiv> Max (set (map snd (disease_scores m symptoms)))"
  shows "\<exists>s. (d, s) \<in> set (disease_scores m symptoms) \<and> p = prob_of mx s"
proof -
  have "(d, p) \<in> (\<lambda>(d, s). (d, prob_of mx s)) ` set (disease_scores m symptoms)"
    using assms(1) unfolding set_ranking mx_def .
  then obtain x where x: "x \<in> set (disease_scores m symptoms)"
    and e: "(d, p) = (case x of (d, s) \<Rightarrow> (d, prob_of mx s))" by (rule imageE)
  obtain d' s where xs: "x = (d', s)" by (cases x)
  from e have "d = d'" and "p = prob_of mx s" by (simp_all add: xs)
  with x xs show ?thesis by (intro exI[of _ s]) simp
qed

lemma returned_entry:
  assumes ne: "disease_scores m symptoms \<noteq> []"
    and mem: "(d, p) \<in> set (py_slice_to (ranking m symptoms) top_n)"
  defines "mx \<equiv> Max (set (map snd (disease_scores m symptoms)))"
  shows "\<exists>score q.
           (d, score) \<in> set (disease_scores m symptoms) \<and> 1 \<le> score \<and> score \<le> mx
         \<and> py_truediv score mx = Inr q
         \<and> p = py_round (float_mul q 100) 1
         \<and> (score = mx \<longrightarrow> p = 100)
         \<and> 0 \<le> p \<and> p \<le> 100
         \<and> (\<exists>k. 0 \<le> k \<and> k \<le> 1000 \<and> p = fl (of_int k / 10))"
proof -
  have mx1: "1 \<le> mx" unfolding mx_def using ne by (rule max_score_props(1))
  have "(d, p) \<in> set (ranking m symptoms)" using mem set_slice[of "ranking m symptoms" top_n] by (rule subsetD[rotated])
  then obtain s where s: "(d, s) \<in> set (disease_scores m symptoms)" and p: "p = prob_of mx s"
    unfolding mx_def using ranking_entry by blast
  have s1: "1 \<le> s" using s by (rule disease_scores_ge1)
  then have s0: "0 \<le> s" by simp
  have sm: "s \<le> mx" unfolding mx_def using ne s by (rule max_score_props(3))
  have mx0: "mx \<noteq> 0" using mx1 by simp
  have q: "py_truediv s mx = Inr (fl (of_int s / of_int mx))"
    unfolding py_truediv_def using mx0 by (simp only: if_False)
  have pq: "p = py_round (float_mul (fl (of_int s / of_int mx)) 100) 1"
    unfolding p prob_of_def ..
  have top: "s = mx \<longrightarrow> p = 100" using prob_of_max[OF mx1] p by simp
  obtain k where k: "0 \<le> k" "k \<le> 1000" "prob_of mx s = fl (of_int k / 10)"
    using prob_of_bounds(3)[OF s0 sm mx1] by blast
  have p0: "0 \<le> p" unfolding p using s0 sm mx1 by (rule prob_of_bounds(1))
  have p1: "p \<le> 100" unfolding p using s0 sm mx1 by (rule prob_of_bounds(2))
  have kk: "\<exists>k. 0 \<le> k \<and> k \<le> 1000 \<and> p = fl (of_int k / 10)"
    unfolding p using k by (intro exI[of _ k] conjI)
  show ?thesis
    by (rule exI[of _ s], rule exI[of _ "fl (of_int s / of_int mx)"])
       (intro conjI s s1 sm q pq top p0 p1 kk)
qed

section \<open>Ties and the scoring scenario\<close>

lemma two_perm:
  assumes "distinct xs" "set xs = {a, b}" "a \<noteq> b"
  shows "xs = [a, b] \<or> xs = [b, a]"
proof -
  have "length xs = card {a, b}" using assms(1,2) distinct_card by fastforce
  then have "length xs = 2" using assms(3) by simp
  then obtain x y where xs: "xs = [x, y]"
    by (cases xs; cases "tl xs"; cases "tl (tl xs)") auto
  with assms(2) have "{x, y} = {a, b}" by simp
  then have "(x = a \<and> y = b) \<or> (x = b \<and> y = a)" by (simp add: doubleton_eq_iff)
  then show ?thesis using xs by auto
qed

lemma prob_of_2_1: "prob_of 2 1 = 50" by code_simp
lemma prob_of_2_2: "prob_of 2 2 = 100" by code_simp

lemma keys_filter_distinct:
  "distinct (map fst xs) \<Longrightarrow>
   map fst (filter (\<lambda>r. snd r = p) xs) = filter (\<lambda>d. (d, p) \<in> set xs) (map fst xs)"
proof (induction xs)
  case Nil
  then show ?case by simp
next
  case (Cons x xs)
  obtain d0 v0 where x: "x = (d0, v0)" by (cases x)
  from Cons.prems have nin: "d0 \<notin> fst ` set xs" and dist: "distinct (map fst xs)" by (simp_all add: x)
  have notin: "(d0, q) \<notin> set xs" for q using nin by force
  have ne: "d \<noteq> d0" if "d \<in> fst ` set xs" for d using nin that by auto
  have tl: "filter (\<lambda>d. d = d0 \<and> p = v0 \<or> (d, p) \<in> set xs) (map fst xs)
              = filter (\<lambda>d. (d, p) \<in> set xs) (map fst xs)"
    by (rule filter_cong[OF refl]) (use ne in auto)
  show ?case
  proof (cases "p = v0")
    case True
    with tl Cons.IH[OF dist] notin show ?thesis by (simp add: x)
  next
    case False
    with tl Cons.IH[OF dist] notin show ?thesis by (simp add: x)
  qed
qed

lemma ranking_ties:
  "map fst (filter (\<lambda>r. snd r = p) (ranking m symptoms))
     = filter (\<lambda>d. (d, p) \<in> set (ranking m symptoms)) (first_seen [] (encountered m symptoms))"
proof -
  define res where
    "res = map (\<lambda>(d, s). (d, prob_of (Max (set (map snd (disease_scores m symptoms)))) s))
             (disease_scores m symptoms)"
  have r: "ranking m symptoms = sort_key (\<lambda>x. - snd x) res"
    by (simp add: ranking_def Let_def sort_reverse_def res_def)
  have keys: "map fst res = first_seen [] (encountered m symptoms)"
    unfolding res_def by (simp add: keys_disease_scores[symmetric] case_prod_unfold comp_def)
  have dist: "distinct (map fst res)" unfolding keys by (simp add: distinct_first_seen)
  have "filter (\<lambda>r. snd r = p) (ranking m symptoms) = filter (\<lambda>y. - snd y = - p) (sort_key (\<lambda>x. - snd x) res)"
    unfolding r by simp
  also have "\<dots> = filter (\<lambda>y. - snd y = - p) res" by (rule sort_key_stable)
  also have "\<dots> = filter (\<lambda>r. snd r = p) res" by simp
  finally have "map fst (filter (\<lambda>r. snd r = p) (ranking m symptoms))
                  = filter (\<lambda>d. (d, p) \<in> set res) (map fst res)"
    using keys_filter_distinct[OF dist] by simp
  moreover have "set (ranking m symptoms) = set res" unfolding r by simp
  ultimately show ?thesis by (simp add: keys)
qed

lemma scenario:
  assumes "distinct symptoms" "set symptoms = {''fever'', ''cough''}"
    and "m ''fever'' = Some fs" "distinct fs" "set fs = {''flu'', ''malaria''}"
    and "m ''cough'' = Some cs" "distinct cs" "set cs = {''flu'', ''cold''}"
  shows "set (disease_scores m symptoms) = {(''flu'', 2), (''malaria'', 1), (''cold'', 1)}"
    and "py_slice_to (ranking m symptoms) 3 = ranking m symptoms"
    and "ranking m symptoms =
           (''flu'', 100) # map (\<lambda>d. (d, 50))
             (filter (\<lambda>d. d \<noteq> ''flu'') (first_seen [] (encountered m symptoms)))"
proof -
  have s: "symptoms = [''fever'', ''cough''] \<or> symptoms = [''cough'', ''fever'']"
    using assms(1,2) by (intro two_perm) simp_all
  have f: "fs = [''flu'', ''malaria''] \<or> fs = [''malaria'', ''flu'']"
    using assms(4,5) by (intro two_perm) simp_all
  have c: "cs = [''flu'', ''cold''] \<or> cs = [''cold'', ''flu'']"
    using assms(7,8) by (intro two_perm) simp_all
  note defs = ranking_def disease_scores_def encountered_def bump_value_def sort_reverse_def
    Let_def prob_of_2_1 prob_of_2_2 assms(3,6)
  from s f c show "set (disease_scores m symptoms) = {(''flu'', 2), (''malaria'', 1), (''cold'', 1)}"
    by (elim disjE) (simp_all add: defs, auto)
  from s f c show "py_slice_to (ranking m symptoms) 3 = ranking m symptoms"
    by (elim disjE) (simp_all add: defs py_slice_to_def)
  from s f c show "ranking m symptoms =
           (''flu'', 100) # map (\<lambda>d. (d, 50))
             (filter (\<lambda>d. d \<noteq> ''flu'') (first_seen [] (encountered m symptoms)))"
    by (elim disjE) (simp_all add: defs)
qed

section \<open>The passes of the extractor as unions over phrases\<close>

lemma scan_symptoms_eq:
  "scan_symptoms env voc p syms R = R \<union> set_option (find (matches env voc p) syms)"
  by (induction syms) auto

lemma fold_scan:
  "fold (\<lambda>x r. scan_symptoms env voc (f x) syms r) xs R
     = R \<union> (\<Union>x \<in> set xs. set_option (find (matches env voc (f x)) syms))"
  by (induction xs arbitrary: R) (auto simp: scan_symptoms_eq)

lemma fold_union:
  "fold (\<lambda>x r. r \<union> g x) xs R = R \<union> (\<Union>x \<in> set xs. g x)"
  by (induction xs arbitrary: R) auto

lemma single_word_pass_eq:
  "single_word_pass env voc words R
     = R \<union> (\<Union>w \<in> set words. set_option (find (matches env voc w) (all_symptoms voc)))"
  unfolding single_word_pass_def by (rule fold_scan[where f = "\<lambda>w. w"])

lemma windows_pass_eq:
  "fold (\<lambda>i r.
         fold (\<lambda>j r'. scan_symptoms env voc (join_space (py_slice words i j)) syms r')
           (js i) r) is R
   = R \<union> (\<Union>i \<in> set is. \<Union>j \<in> set (js i).
            set_option (find (matches env voc (join_space (py_slice words i j))) syms))"
proof -
  have "(\<lambda>i r. fold (\<lambda>j r'. scan_symptoms env voc (join_space (py_slice words i j)) syms r') (js i) r)
        = (\<lambda>i r. r \<union> (\<Union>j \<in> set (js i).
            set_option (find (matches env voc (join_space (py_slice words i j))) syms)))"
    by (intro ext) (rule fold_scan)
  then show ?thesis by (simp only: fold_union)
qed

lemma multi_word_pass_eq:
  "multi_word_pass env voc words R
     = R \<union> (\<Union>i \<in> {0 ..< length words}. \<Union>j \<in> {i + 1 ..< min (i + 5) (length words + 1)}.
          set_option (find (matches env voc (join_space (py_slice words i j))) (all_symptoms voc)))"
  unfolding multi_word_pass_def windows_pass_eq by simp


lemma slice_one: "i < length ws \<Longrightarrow> py_slice ws i (Suc i) = [ws ! i]"
  by (simp add: py_slice_def take_Suc_conv_app_nth[of 0] drop_eq_Nil hd_drop_conv_nth take_Suc)

lemma find_subset: "set_option (find P xs) \<subseteq> set xs"
  by (induction xs) auto

lemma clean_words_empty:
  "\<forall>w \<in> set (word_tokenize env (sub_nonword env (lower env text))). w \<in> stop_words env
   \<Longrightarrow> clean_words env text = []"
  by (simp add: clean_words_def Let_def filter_empty_conv)

lemma extract_eq_windows:
  "extract_symptoms_from_text env voc text =
     (\<Union>i \<in> {0 ..< length (clean_words env text)}.
      \<Union>j \<in> {i + 1 ..< min (i + 5) (length (clean_words env text) + 1)}.
        set_option (find (matches env voc (join_space (py_slice (clean_words env text) i j)))
                      (all_symptoms voc)))"
proof -
  define ws where "ws = clean_words env text"
  define hit where "hit = (\<lambda>p. set_option (find (matches env voc p) (all_symptoms voc)))"
  let ?W = "\<Union>i \<in> {0 ..< length ws}. \<Union>j \<in> {i + 1 ..< min (i + 5) (length ws + 1)}.
              hit (join_space (py_slice ws i j))"
  have single: "hit w \<subseteq> ?W" if "w \<in> set ws" for w
  proof -
    from that obtain i where i: "i < length ws" and w: "w = ws ! i" by (auto simp: in_set_conv_nth)
    have "hit (join_space (py_slice ws i (i + 1))) = hit w" using i w by (simp add: slice_one)
    moreover have "i + 1 \<in> {i + 1 ..< min (i + 5) (length ws + 1)}" using i by simp
    moreover have "i \<in> {0 ..< length ws}" using i by simp
    ultimately show ?thesis by blast
  qed
  have "extract_symptoms_from_text env voc text = (\<Union>w \<in> set ws. hit w) \<union> ?W"
    by (simp add: extract_symptoms_from_text_def Let_def single_word_pass_eq multi_word_pass_eq
        ws_def hit_def)
  also have "\<dots> = ?W" using single by blast
  finally show ?thesis by (simp add: ws_def hit_def)
qed



lemma extract_subset_vocabulary:
  "extract_symptoms_from_text env voc text \<subseteq> set (all_symptoms voc)"
  unfolding extract_eq_windows using find_subset by fast

lemma extract_no_words:
  "clean_words env text = [] \<Longrightarrow> extract_symptoms_from_text env voc text = {}"
  by (simp add: extract_eq_windows)

lemma extract_eq_first_matches:
  "extract_symptoms_from_text env voc text =
     {s. \<exists>i j. i < j \<and> j \<le> i + 4 \<and> j \<le> length (clean_words env text)
            \<and> find (matches env voc (join_space (py_slice (clean_words env text) i j)))
                 (all_symptoms voc) = Some s}"
proof (intro set_eqI iffI)
  let ?ws = "clean_words env text"
  let ?hit = "\<lambda>i j. find (matches env voc (join_space (py_slice ?ws i j))) (all_symptoms voc)"
  fix s
  {
    assume "s \<in> extract_symptoms_from_text env voc text"
    then obtain i j where i: "i < length ?ws" and j: "i + 1 \<le> j" "j < min (i + 5) (length ?ws + 1)"
      and s: "s \<in> set_option (?hit i j)"
      unfolding extract_eq_windows by auto
    from s have "?hit i j = Some s" by (cases "?hit i j") simp_all
    moreover from j have "i < j" "j \<le> i + 4" "j \<le> length ?ws" by simp_all
    ultimately show "s \<in> {s. \<exists>i j. i < j \<and> j \<le> i + 4 \<and> j \<le> length ?ws \<and> ?hit i j = Some s}"
      by blast
  }
  {
    assume "s \<in> {s. \<exists>i j. i < j \<and> j \<le> i + 4 \<and> j \<le> length ?ws \<and> ?hit i j = Some s}"
    then obtain i j where ij: "i < j" "j \<le> i + 4" "j \<le> length ?ws" and h: "?hit i j = Some s"
      by blast
    from ij have "i \<in> {0 ..< length ?ws}" and "j \<in> {i + 1 ..< min (i + 5) (length ?ws + 1)}"
      by simp_all
    moreover have "s \<in> set_option (?hit i j)" using h by simp
    ultimately show "s \<in> extract_symptoms_from_text env voc text"
      unfolding extract_eq_windows by blast
  }
qed

lemma matches_lower_synonyms:
  assumes "\<forall>syn \<in> set (case symptom_synonyms voc c of None \<Rightarrow> [] | Some syns \<Rightarrow> syns).
             lower env syn = syn"
  shows "matches env voc p c \<longleftrightarrow>
           p = lower env c
           \<or> p \<in> lower env ` set (case symptom_synonyms voc c of None \<Rightarrow> [] | Some syns \<Rightarrow> syns)"
proof -
  have "lower env ` set (case symptom_synonyms voc c of None \<Rightarrow> [] | Some syns \<Rightarrow> syns)
          = set (case symptom_synonyms voc c of None \<Rightarrow> [] | Some syns \<Rightarrow> syns)"
    using assms by (simp add: image_def) 
  then show ?thesis unfolding matches_def by (simp only:)
qed

lemma find_matches_lower:
  assumes "\<forall>c \<in> set (all_symptoms voc).
             \<forall>syn \<in> set (case symptom_synonyms voc c of None \<Rightarrow> [] | Some syns \<Rightarrow> syns).
               lower env syn = syn"
  shows "find (matches env voc p) (all_symptoms voc)
           = find (\<lambda>c. p = lower env c
                      \<or> p \<in> lower env ` set (case symptom_synonyms voc c of
                                                None \<Rightarrow> [] | Some syns \<Rightarrow> syns))
               (all_symptoms voc)"
proof (rule find_cong[OF refl])
  fix c assume "c \<in> set (all_symptoms voc)"
  with assms have "\<forall>syn \<in> set (case symptom_synonyms voc c of None \<Rightarrow> [] | Some syns \<Rightarrow> syns).
             lower env syn = syn" by (rule bspec)
  then show "matches env voc p c =
          (p = lower env c
           \<or> p \<in> lower env ` set (case symptom_synonyms voc c of None \<Rightarrow> [] | Some syns \<Rightarrow> syns))"
    by (rule matches_lower_synonyms)
qed

section \<open>The calls on the store compute the functions and write to new objects only\<close>

lemma overwrite_same: "heap s a = Some obj \<Longrightarrow> overwrite a obj s = s"
  by (simp add: overwrite_def fun_upd_idem)

lemma overwrite_twice: "overwrite a x (overwrite a y s) = overwrite a x s"
  by (simp add: overwrite_def)

lemma heap_overwrite: "heap (overwrite a x s) b = (if b = a then Some x else heap s b)"
  by (simp add: overwrite_def)

lemma next_overwrite: "next_addr (overwrite a x s) = next_addr s"
  by (simp add: overwrite_def)

lemma for_each_overwrite:
  assumes step: "\<And>x s R. Q s \<Longrightarrow> heap s a = Some (C R) \<Longrightarrow>
                   body x s = Some (overwrite a (C (h x R)) s)"
    and pres: "\<And>s R R'. Q s \<Longrightarrow> heap s a = Some (C R) \<Longrightarrow> Q (overwrite a (C R') s)"
    and "Q s" and "heap s a = Some (C R)"
  shows "for_each body xs s = Some (overwrite a (C (fold h xs R)) s)"
  using assms(3,4)
proof (induction xs arbitrary: s R)
  case Nil
  then show ?case by (simp add: overwrite_same)
next
  case (Cons x xs)
  let ?s1 = "overwrite a (C (h x R)) s"
  have b: "body x s = Some ?s1" using Cons.prems by (rule step)
  have i1: "Q ?s1" using Cons.prems by (rule pres)
  have h1: "heap ?s1 a = Some (C (h x R))" by (simp add: heap_overwrite)
  from Cons.IH[OF i1 h1] b show ?case by (simp add: overwrite_twice)
qed

lemma vocabulary_at_overwrite:
  assumes "vocabulary_at g voc s" "heap s a = Some (StrSet R)"
  shows "vocabulary_at g voc (overwrite a (StrSet R') s)"
proof -
  have "a \<noteq> all_symptoms_at g" "a \<noteq> symptom_synonyms_at g"
    using assms by (auto simp: vocabulary_at_def)
  then show ?thesis using assms(1) by (simp add: vocabulary_at_def heap_overwrite)
qed

lemma scan_symptoms_h_eq:
  assumes "vocabulary_at g voc s" "heap s a = Some (StrSet R)"
  shows "scan_symptoms_h env g phrase syms a s
           = Some (overwrite a (StrSet (scan_symptoms env voc phrase syms R)) s)"
proof (induction syms)
  case Nil
  show ?case using assms(2) by (simp add: overwrite_same)
next
  case (Cons symptom rest)
  have d: "read_dict s (symptom_synonyms_at g) = Some (symptom_synonyms voc)"
    using assms(1) by (simp add: read_dict_def vocabulary_at_def)
  have r: "read_set s a = Some R" using assms(2) by (simp add: read_set_def)
  have step: "scan_symptoms_h env g phrase (symptom # rest) a s
                = (if matches env voc phrase symptom
                   then Some (overwrite a (StrSet (insert symptom R)) s)
                   else scan_symptoms_h env g phrase rest a s)"
    by (simp only: scan_symptoms_h.simps d r option.case matches_def)
  show ?case unfolding step by (simp add: Cons.IH)
qed

lemma scan_phrase_h_eq:
  assumes "vocabulary_at g voc s" "heap s a = Some (StrSet R)"
  shows "scan_phrase_h env g a phrase s
           = Some (overwrite a (StrSet (scan_symptoms env voc phrase (all_symptoms voc) R)) s)"
proof -
  have "read_list s (all_symptoms_at g) = Some (all_symptoms voc)"
    using assms(1) by (simp add: read_list_def vocabulary_at_def)
  then show ?thesis by (simp add: scan_phrase_h_def scan_symptoms_h_eq[OF assms])
qed

lemma single_h_eq:
  assumes "vocabulary_at g voc s" "heap s a = Some (StrSet R)"
  shows "for_each (scan_phrase_h env g a) words s
           = Some (overwrite a (StrSet (single_word_pass env voc words R)) s)"
  unfolding single_word_pass_def
  by (rule for_each_overwrite[where Q = "vocabulary_at g voc" and C = StrSet,
        OF scan_phrase_h_eq vocabulary_at_overwrite assms])

lemma windows_h_eq:
  assumes "vocabulary_at g voc s" "heap s a = Some (StrSet R)"
  shows "for_each (\<lambda>j. scan_phrase_h env g a (join_space (py_slice words i j))) js s
           = Some (overwrite a (StrSet
               (fold (\<lambda>j r'. scan_symptoms env voc (join_space (py_slice words i j)) (all_symptoms voc) r')
                  js R)) s)"
  by (rule for_each_overwrite[where Q = "vocabulary_at g voc" and C = StrSet,
        OF scan_phrase_h_eq vocabulary_at_overwrite assms])

lemma multi_h_eq:
  assumes "vocabulary_at g voc s" "heap s a = Some (StrSet R)"
  shows "for_each
           (\<lambda>i. for_each (\<lambda>j. scan_phrase_h env g a (join_space (py_slice words i j)))
                   [i + 1 ..< min (i + 5) (length words + 1)])
           [0 ..< length words] s
         = Some (overwrite a (StrSet (multi_word_pass env voc words R)) s)"
  unfolding multi_word_pass_def
  by (rule for_each_overwrite[where Q = "vocabulary_at g voc" and C = StrSet,
        OF windows_h_eq vocabulary_at_overwrite assms])

lemma extract_h_eq:
  assumes "vocabulary_at g voc s"
    and "all_symptoms_at g < next_addr s" "symptom_synonyms_at g < next_addr s"
  shows "extract_symptoms_from_text_h env g text s
           = Some (next_addr s,
               \<lparr> heap = (heap s)(next_addr s \<mapsto> StrSet (extract_symptoms_from_text env voc text)),
                 next_addr = Suc (next_addr s) \<rparr>)"
proof -
  define n where "n = next_addr s"
  define s0 where "s0 = \<lparr> heap = (heap s)(n \<mapsto> StrSet {}), next_addr = Suc n \<rparr>"
  define ws where "ws = clean_words env text"
  define R1 where "R1 = single_word_pass env voc ws {}"
  have al: "alloc (StrSet {}) s = (n, s0)" by (simp add: alloc_def n_def s0_def)
  have v0: "vocabulary_at g voc s0"
    using assms by (simp add: vocabulary_at_def s0_def n_def)
  have h0: "heap s0 n = Some (StrSet {})" by (simp add: s0_def)
  have p1: "for_each (scan_phrase_h env g n) ws s0 = Some (overwrite n (StrSet R1) s0)"
    unfolding R1_def using v0 h0 by (rule single_h_eq)
  have v1: "vocabulary_at g voc (overwrite n (StrSet R1) s0)"
    using v0 h0 by (rule vocabulary_at_overwrite)
  have h1: "heap (overwrite n (StrSet R1) s0) n = Some (StrSet R1)" by (simp add: heap_overwrite)
  have p2: "for_each
           (\<lambda>i. for_each (\<lambda>j. scan_phrase_h env g n (join_space (py_slice ws i j)))
                   [i + 1 ..< min (i + 5) (length ws + 1)])
           [0 ..< length ws] (overwrite n (StrSet R1) s0)
         = Some (overwrite n (StrSet (multi_word_pass env voc ws R1)) s0)"
    using multi_h_eq[OF v1 h1, of env ws] by (simp only: overwrite_twice)
  have r: "multi_word_pass env voc ws R1 = extract_symptoms_from_text env voc text"
    by (simp add: extract_symptoms_from_text_def Let_def R1_def ws_def)
  have fin: "overwrite n (StrSet (extract_symptoms_from_text env voc text)) s0
           = \<lparr> heap = (heap s)(n \<mapsto> StrSet (extract_symptoms_from_text env voc text)),
               next_addr = Suc n \<rparr>"
    by (simp add: overwrite_def s0_def)
  have "extract_symptoms_from_text_h env g text s
          = Some (n, overwrite n (StrSet (multi_word_pass env voc ws R1)) s0)"
    unfolding extract_symptoms_from_text_h_def Let_def ws_def[symmetric] al
    by (simp only: prod.case p1 p2 option.case)
  then have "extract_symptoms_from_text_h env g text s
          = Some (n, \<lparr> heap = (heap s)(n \<mapsto> StrSet (extract_symptoms_from_text env voc text)),
                       next_addr = Suc n \<rparr>)"
    by (simp only: r fin)
  then show ?thesis by (simp only: n_def)
qed

lemma bump_h_eq:
  "heap s a = Some (ScoreDict ds) \<Longrightarrow>
   bump_h a d s = Some (overwrite a (ScoreDict (bump_value ds d)) s)"
  by (simp add: bump_h_def read_scores_def bump_eq)

lemma disease_map_at_overwrite:
  assumes "disease_map_at g m s" "heap s a = Some (ScoreDict R)"
  shows "disease_map_at g m (overwrite a (ScoreDict R') s)"
proof -
  have "a \<noteq> symptom_disease_map_at g" using assms by (auto simp: disease_map_at_def)
  then show ?thesis using assms(1) by (simp add: disease_map_at_def heap_overwrite)
qed

lemma count_symptom_h_eq:
  assumes "disease_map_at g m s" "heap s a = Some (ScoreDict ds)"
  shows "count_symptom_h g a symptom s
           = Some (overwrite a (ScoreDict
               (fold (\<lambda>d acc. bump_value acc d)
                  (case m symptom of None \<Rightarrow> [] | Some diseases \<Rightarrow> diseases) ds)) s)"
proof -
  have d: "read_dict s (symptom_disease_map_at g) = Some m"
    using assms(1) by (simp add: read_dict_def disease_map_at_def)
  show ?thesis
  proof (cases "m symptom")
    case None
    then show ?thesis using assms(2) by (simp add: count_symptom_h_def d overwrite_same)
  next
    case (Some diseases)
    have "for_each (bump_h a) diseases s
            = Some (overwrite a (ScoreDict (fold (\<lambda>d acc. bump_value acc d) diseases ds)) s)"
      by (rule for_each_overwrite[where Q = "\<lambda>s. True" and C = ScoreDict, OF bump_h_eq TrueI TrueI assms(2)])
    then show ?thesis using Some by (simp add: count_symptom_h_def d)
  qed
qed

lemma fold_fold_concat: "fold (\<lambda>x. fold f (g x)) xs acc = fold f (concat (map g xs)) acc"
  by (induction xs arbitrary: acc) simp_all

lemma accumulate_h_eq:
  assumes "disease_map_at g m s" "heap s a = Some (ScoreDict ds)"
  shows "for_each (count_symptom_h g a) symptoms s
           = Some (overwrite a (ScoreDict
               (fold (\<lambda>d acc. bump_value acc d) (encountered m symptoms) ds)) s)"
proof -
  have "for_each (count_symptom_h g a) symptoms s
          = Some (overwrite a (ScoreDict
              (fold (\<lambda>symptom. fold (\<lambda>d acc. bump_value acc d)
                       (case m symptom of None \<Rightarrow> [] | Some diseases \<Rightarrow> diseases)) symptoms ds)) s)"
    by (rule for_each_overwrite[where Q = "disease_map_at g m" and C = ScoreDict,
          OF count_symptom_h_eq disease_map_at_overwrite assms])
  moreover have "fold (\<lambda>symptom. fold (\<lambda>d acc. bump_value acc d)
                       (case m symptom of None \<Rightarrow> [] | Some diseases \<Rightarrow> diseases)) symptoms ds
                 = fold (\<lambda>d acc. bump_value acc d) (encountered m symptoms) ds"
    unfolding encountered_def by (rule fold_fold_concat)
  ultimately show ?thesis by simp
qed

lemma preprocess_h_eq:
  assumes t: "tables_at g voc m s" and sel: "heap s selected = Some (StrList sel)"
  shows "\<exists>r s'. preprocess_symptoms_h env set_order g selected text s = Some (r, s')
           \<and> heap s' r = Some (StrList (set_order (preprocess_symptoms env voc sel text)))
           \<and> (\<forall>a < next_addr s. heap s' a = heap s a)
           \<and> next_addr s \<le> next_addr s'"
proof -
  define n where "n = next_addr s"
  define s0 where "s0 = \<lparr> heap = (heap s)(n \<mapsto> StrSet (set sel)), next_addr = Suc n \<rparr>"
  have rl: "read_list s selected = Some sel" using sel by (simp add: read_list_def)
  have al: "alloc (StrSet (set sel)) s = (n, s0)" by (simp add: alloc_def n_def s0_def)
  have lt: "all_symptoms_at g < n" "symptom_synonyms_at g < n"
    using t by (simp_all add: tables_at_def n_def)
  have v0: "vocabulary_at g voc s0"
    using t lt by (simp add: vocabulary_at_def tables_at_def s0_def)
  show ?thesis
  proof (cases "text = []")
    case True
    have "preprocess_symptoms_h env set_order g selected text s
            = Some (alloc (StrList (set_order (set sel))) s0)"
      by (simp add: preprocess_symptoms_h_def rl al True read_set_def s0_def)
    moreover have "preprocess_symptoms env voc sel text = set sel"
      by (simp add: preprocess_symptoms_def True)
    ultimately show ?thesis
      by (simp add: alloc_def s0_def n_def)
  next
    case False
    define E where "E = extract_symptoms_from_text env voc text"
    define s1 where "s1 = \<lparr> heap = (heap s0)(Suc n \<mapsto> StrSet E), next_addr = Suc (Suc n) \<rparr>"
    define s2 where "s2 = overwrite n (StrSet (set sel \<union> E)) s1"
    have ex: "extract_symptoms_from_text_h env g text s0 = Some (Suc n, s1)"
      using extract_h_eq[OF v0, of env "text"] lt by (simp add: s0_def s1_def E_def)
    have r1: "read_set s1 (Suc n) = Some E" by (simp add: read_set_def s1_def)
    have r2: "read_set s1 n = Some (set sel)" by (simp add: read_set_def s1_def s0_def)
    have r3: "read_set s2 n = Some (set sel \<union> E)" by (simp add: read_set_def s2_def heap_overwrite)
    have "preprocess_symptoms_h env set_order g selected text s
            = Some (alloc (StrList (set_order (set sel \<union> E))) s2)"
      by (simp add: preprocess_symptoms_h_def rl al False ex r1 r2 r3 s2_def[symmetric])
    moreover have "preprocess_symptoms env voc sel text = set sel \<union> E"
      by (simp add: preprocess_symptoms_def False E_def Let_def)
    ultimately show ?thesis
      by (simp add: alloc_def s2_def s1_def s0_def n_def overwrite_def)
  qed
qed

lemma predict_h_eq:
  assumes t: "tables_at g voc m s" and sym: "heap s symptoms = Some (StrList syms)"
  shows "\<exists>r s'. predict_disease_h g symptoms top_n s = Some (r, s')
           \<and> heap s' r = Some (ResultList (py_slice_to (ranking m syms) top_n))
           \<and> (\<forall>a < next_addr s. heap s' a = heap s a)
           \<and> next_addr s \<le> next_addr s'"
proof -
  define n where "n = next_addr s"
  define s0 where "s0 = \<lparr> heap = (heap s)(n \<mapsto> ScoreDict []), next_addr = Suc n \<rparr>"
  define ds where "ds = disease_scores m syms"
  define s1 where "s1 = overwrite n (ScoreDict ds) s0"
  have rl: "read_list s symptoms = Some syms" using sym by (simp add: read_list_def)
  have al: "alloc (ScoreDict []) s = (n, s0)" by (simp add: alloc_def n_def s0_def)
  have "symptom_disease_map_at g < n" using t by (simp add: tables_at_def n_def)
  then have d0: "disease_map_at g m s0"
    using t by (simp add: disease_map_at_def tables_at_def s0_def)
  have h0: "heap s0 n = Some (ScoreDict [])" by (simp add: s0_def)
  have acc: "for_each (count_symptom_h g n) syms s0 = Some s1"
    using accumulate_h_eq[OF d0 h0, of syms] by (simp add: s1_def ds_def disease_scores_def)
  have rs: "read_scores s1 n = Some ds" by (simp add: read_scores_def s1_def heap_overwrite)
  show ?thesis
  proof (cases "ds = []")
    case True
    then have "ranking m syms = []"
      by (simp add: ranking_def ds_def[symmetric] sort_reverse_def)
    moreover have "predict_disease_h g symptoms top_n s = Some (alloc (ResultList []) s1)"
      by (simp add: predict_disease_h_def rl al acc rs True)
    ultimately show ?thesis
      by (simp add: alloc_def s1_def s0_def n_def overwrite_def py_slice_to_def)
  next
    case False
    define mx where "mx = Max (set (map snd ds))"
    define rs0 where "rs0 = map (\<lambda>(d, c). (d, prob_of mx c)) ds"
    have ne: "disease_scores m syms \<noteq> []" using False by (simp add: ds_def)
    have mx1: "1 \<le> mx" unfolding mx_def ds_def using ne by (rule max_score_props(1))
    have pm: "py_max (map snd ds) = Inr mx" using False by (simp add: py_max_eq mx_def del: set_map)
    have pr: "probabilities mx ds = Inr rs0" using mx1 by (simp add: probabilities_eq rs0_def)
    have rk: "ranking m syms = sort_reverse snd rs0"
      by (simp add: ranking_def Let_def ds_def[symmetric] mx_def[symmetric] rs0_def del: set_map)
    define s2 where "s2 = \<lparr> heap = (heap s1)(Suc n \<mapsto> ResultList rs0), next_addr = Suc (Suc n) \<rparr>"
    have al2: "alloc (ResultList rs0) s1 = (Suc n, s2)"
      by (simp add: alloc_def s2_def s1_def s0_def overwrite_def)
    have "predict_disease_h g symptoms top_n s
            = Some (alloc (ResultList (py_slice_to (sort_reverse snd rs0) top_n))
                     (overwrite (Suc n) (ResultList (sort_reverse snd rs0)) s2))"
      by (simp add: predict_disease_h_def rl al acc rs False pm pr al2 Let_def)
    then show ?thesis
      by (simp add: rk alloc_def s2_def s1_def s0_def n_def overwrite_def)
  qed
qed

lemma tables_at_frame:
  assumes "tables_at g voc m s" "\<forall>a < next_addr s. heap s' a = heap s a" "next_addr s \<le> next_addr s'"
  shows "tables_at g voc m s'"
  using assms by (simp add: tables_at_def)

lemma finite_preprocess: "finite (preprocess_symptoms env voc sel free_text)"
proof -
  have "finite (extract_symptoms_from_text env voc free_text)"
    using extract_subset_vocabulary[of env voc free_text] by (rule finite_subset) simp
  then show ?thesis by (simp add: preprocess_symptoms_def Let_def)
qed

section \<open>Properties of the scorer\<close>

text \<open>
  C1 (as amended). For every symptom list and every \<open>top_n\<close>, \<^verbatim>\<open>predict_disease\<close> returns a
  list that is sorted non-increasing by probability; when \<open>top_n\<close> is not negative, the list
  has at most \<open>top_n\<close> entries.
\<close>

theorem predict_disease_sorted_bounded:
  "\<exists>r. predict_disease m symptoms top_n = Inr r
       \<and> sorted_wrt (\<lambda>p q. q \<le> p) (map snd r)
       \<and> (0 \<le> top_n \<longrightarrow> int (length r) \<le> top_n)"
  by (simp add: predict_disease_eq sorted_slice sorted_ranking length_slice)

theorem predict_disease_sorted_bounded_witness:
  "(0::int) \<le> 3
   \<and> (\<exists>r. predict_disease example_map [''fever'', ''cough''] 3 = Inr r
          \<and> sorted_wrt (\<lambda>p q. q \<le> p) (map snd r)
          \<and> int (length r) \<le> 3)"
  using predict_disease_sorted_bounded [of example_map "[''fever'', ''cough'']" 3] by simp

text \<open>
  C1 as stated fails for a negative \<open>top_n\<close>: the slice \<^verbatim>\<open>results[:-1]\<close> drops the last entry
  only, and the two entries that remain are more than \<open>-1\<close>.
\<close>

theorem predict_disease_length_counterexample:
  "predict_disease example_map [''fever'', ''cough''] (- 1) = Inr [(''flu'', 100), (''malaria'', 50)]
   \<and> \<not> int (length [(''flu'', 100 :: double), (''malaria'', 50)]) \<le> - 1"
  unfolding example_map_def by code_simp

text \<open>
  C2. When at least one disease has been counted, \<^verbatim>\<open>max\<close> succeeds with the greatest of the
  counts, which is at least 1; every returned probability is \<^verbatim>\<open>round((score / max_score) * 100, 1)\<close> for the count of its
  disease; a disease whose count is the maximum has probability 100; every probability lies
  between 0 and 100 and is the float nearest to a number of tenths; and the first entry
  returned, if one is asked for, has probability 100.
\<close>

theorem predict_disease_probabilities:
  assumes "accumulate m [] symptoms = Inr disease_score"
    and "disease_score \<noteq> []"
    and "predict_disease m symptoms top_n = Inr returned"
  shows "\<exists>max_score. py_max (map snd disease_score) = Inr max_score
           \<and> 1 \<le> max_score
           \<and> max_score \<in> snd ` set disease_score
           \<and> (\<forall>(d, c) \<in> set disease_score. c \<le> max_score)
           \<and> (\<forall>(d, p) \<in> set returned. \<exists>score q.
                 (d, score) \<in> set disease_score \<and> 1 \<le> score \<and> score \<le> max_score
               \<and> py_truediv score max_score = Inr q
               \<and> p = py_round (float_mul q 100) 1
               \<and> (score = max_score \<longrightarrow> p = 100)
               \<and> 0 \<le> p \<and> p \<le> 100
               \<and> (\<exists>k. 0 \<le> k \<and> k \<le> 1000 \<and> p = fl (of_int k / 10)))
           \<and> (1 \<le> top_n \<longrightarrow> returned \<noteq> [] \<and> snd (hd returned) = 100)"
proof -
  have ds: "disease_score = disease_scores m symptoms"
    using assms(1) unfolding accumulate_scores by (rule_tac sym) simp
  have ne: "disease_scores m symptoms \<noteq> []" using assms(2) unfolding ds .
  define mx where "mx = Max (set (map snd (disease_scores m symptoms)))"
  have mx1: "1 \<le> mx" unfolding mx_def using ne by (rule max_score_props(1))
  have "map snd (disease_scores m symptoms) \<noteq> []" using ne by simp
  then have pm: "py_max (map snd disease_score) = Inr mx"
    unfolding ds mx_def by (rule py_max_eq)
  have "Inr (py_slice_to (ranking m symptoms) top_n) = (Inr returned :: py_error + _)"
    using assms(3) unfolding predict_disease_eq .
  then have ret: "returned = py_slice_to (ranking m symptoms) top_n" by simp
  have all: "\<forall>(d, p) \<in> set returned. \<exists>score q.
                 (d, score) \<in> set disease_score \<and> 1 \<le> score \<and> score \<le> mx
               \<and> py_truediv score mx = Inr q
               \<and> p = py_round (float_mul q 100) 1
               \<and> (score = mx \<longrightarrow> p = 100)
               \<and> 0 \<le> p \<and> p \<le> 100
               \<and> (\<exists>k. 0 \<le> k \<and> k \<le> 1000 \<and> p = fl (of_int k / 10))"
  proof (intro ballI)
    fix x assume xin: "x \<in> set returned"
    obtain d p where x: "x = (d, p)" by (cases x)
    have "(d, p) \<in> set (py_slice_to (ranking m symptoms) top_n)" using xin unfolding x ret .
    from returned_entry[OF ne this]
    show "case x of (d, p) \<Rightarrow> \<exists>score q.
                 (d, score) \<in> set disease_score \<and> 1 \<le> score \<and> score \<le> mx
               \<and> py_truediv score mx = Inr q
               \<and> p = py_round (float_mul q 100) 1
               \<and> (score = mx \<longrightarrow> p = 100)
               \<and> 0 \<le> p \<and> p \<le> 100
               \<and> (\<exists>k. 0 \<le> k \<and> k \<le> 1000 \<and> p = fl (of_int k / 10))"
      unfolding x ds mx_def by (simp only: prod.case)
  qed
  have hd: "1 \<le> top_n \<longrightarrow> returned \<noteq> [] \<and> snd (hd returned) = 100"
  proof
    assume n: "1 \<le> top_n"
    have "length (ranking m symptoms) \<noteq> 0" using ne unfolding length_ranking by simp
    then have "ranking m symptoms \<noteq> []" by simp
    from hd_slice[OF n this] have "returned \<noteq> []" and "hd returned = hd (ranking m symptoms)"
      unfolding ret by simp_all
    then show "returned \<noteq> [] \<and> snd (hd returned) = 100"
      using hd_ranking[OF ne] by simp
  qed
  have mxin: "mx \<in> snd ` set disease_score"
    unfolding ds mx_def using ne by (rule max_score_props(2))
  have ub: "\<forall>(d, c) \<in> set disease_score. c \<le> mx"
  proof (intro ballI)
    fix x assume xin: "x \<in> set disease_score"
    obtain d c where x: "x = (d, c)" by (cases x)
    have "(d, c) \<in> set (disease_scores m symptoms)" using xin unfolding x ds .
    with ne have "c \<le> mx" unfolding mx_def by (rule max_score_props(3))
    then show "case x of (d, c) \<Rightarrow> c \<le> mx" unfolding x by (simp only: prod.case)
  qed
  show ?thesis by (rule exI[of _ mx]) (intro conjI pm mx1 mxin ub all hd)
qed

theorem predict_disease_probabilities_witness:
  "accumulate example_map [] [''fever'', ''cough''] = Inr [(''flu'', 2), (''malaria'', 1), (''cold'', 1)]
   \<and> predict_disease example_map [''fever'', ''cough''] 2 = Inr [(''flu'', 100), (''malaria'', 50)]
   \<and> (\<exists>max_score. py_max (map snd [(''flu'', 2), (''malaria'', 1), (''cold'', 1 :: int)]) = Inr max_score
           \<and> 1 \<le> max_score
           \<and> max_score \<in> snd ` set [(''flu'', 2), (''malaria'', 1), (''cold'', 1)]
           \<and> (\<forall>(d, c) \<in> set [(''flu'', 2), (''malaria'', 1), (''cold'', 1)]. c \<le> max_score)
           \<and> (\<forall>(d, p) \<in> set [(''flu'', 100 :: double), (''malaria'', 50)]. \<exists>score q.
                 (d, score) \<in> set [(''flu'', 2), (''malaria'', 1), (''cold'', 1)]
               \<and> 1 \<le> score \<and> score \<le> max_score
               \<and> py_truediv score max_score = Inr q
               \<and> p = py_round (float_mul q 100) 1
               \<and> (score = max_score \<longrightarrow> p = 100)
               \<and> 0 \<le> p \<and> p \<le> 100
               \<and> (\<exists>k. 0 \<le> k \<and> k \<le> 1000 \<and> p = fl (of_int k / 10)))
           \<and> ((1::int) \<le> 2 \<longrightarrow> [(''flu'', 100 :: double), (''malaria'', 50)] \<noteq> []
                  \<and> snd (hd [(''flu'', 100 :: double), (''malaria'', 50)]) = 100))"
proof -
  have a: "accumulate example_map [] [''fever'', ''cough'']
             = Inr [(''flu'', 2), (''malaria'', 1), (''cold'', 1)]"
    unfolding example_map_def by code_simp
  have n: "[(''flu'', 2 :: int), (''malaria'', 1), (''cold'', 1)] \<noteq> []" by simp
  have p: "predict_disease example_map [''fever'', ''cough''] 2
             = Inr [(''flu'', 100), (''malaria'', 50)]"
    unfolding example_map_def by code_simp
  from predict_disease_probabilities [OF a n p] a p show ?thesis by (intro conjI)
qed

text \<open>
  C5 (as amended). \<^verbatim>\<open>predict_disease\<close> raises for no symptom list and no \<open>top_n\<close>, negative
  ones included. Symptoms that are unknown or have no disease give the empty list. There is
  one complete ranking: a \<open>top_n\<close> that is not negative returns its first \<open>top_n\<close> entries, and
  a negative \<open>top_n\<close> returns all but its last \<open>-top_n\<close> entries.
\<close>

theorem predict_disease_never_raises:
  "(\<exists>r. predict_disease m symptoms top_n = Inr r)
   \<and> ((\<forall>s \<in> set symptoms. m s = None \<or> m s = Some []) \<longrightarrow>
          predict_disease m symptoms top_n = Inr [])
   \<and> (\<exists>full. (\<forall>n\<ge>0. predict_disease m symptoms n = Inr (take (nat n) full))
            \<and> (\<forall>n<0. predict_disease m symptoms n = Inr (take (length full - nat (- n)) full)))"
proof (intro conjI)
  show "\<exists>r. predict_disease m symptoms top_n = Inr r"
    unfolding predict_disease_eq by (rule exI) (rule refl)
  show "(\<forall>s \<in> set symptoms. m s = None \<or> m s = Some []) \<longrightarrow>
          predict_disease m symptoms top_n = Inr []"
  proof
    assume "\<forall>s \<in> set symptoms. m s = None \<or> m s = Some []"
    then have "encountered m symptoms = []"
      unfolding encountered_def by (induction symptoms) auto
    then have "ranking m symptoms = []"
      by (simp add: ranking_def disease_scores_def sort_reverse_def)
    then show "predict_disease m symptoms top_n = Inr []"
      by (simp add: predict_disease_eq py_slice_to_def)
  qed
  have neg: "nat (int (length (ranking m symptoms)) + n) = length (ranking m symptoms) - nat (- n)"
    if "n < 0" for n
    using that by arith
  show "\<exists>full. (\<forall>n\<ge>0. predict_disease m symptoms n = Inr (take (nat n) full))
            \<and> (\<forall>n<0. predict_disease m symptoms n = Inr (take (length full - nat (- n)) full))"
    by (rule exI[of _ "ranking m symptoms"]) (simp add: predict_disease_eq py_slice_to_def neg)
qed

theorem predict_disease_never_raises_witness:
  "example_map ''rash'' = None \<and> predict_disease example_map [''rash''] (- 2) = Inr []"
proof -
  have h: "\<forall>s \<in> set [''rash'']. example_map s = None \<or> example_map s = Some []"
    by (simp add: example_map_def)
  have n: "example_map ''rash'' = None" by (simp add: example_map_def)
  from h predict_disease_never_raises [of example_map "[''rash'']" "- 2"]
  have "predict_disease example_map [''rash''] (- 2) = Inr []" by blast
  with n show ?thesis by (intro conjI)
qed

text \<open>
  C5 as stated fails: with \<open>top_n = -1\<close> the call returns a list; nothing is raised.
\<close>

theorem predict_disease_negative_counterexample:
  "predict_disease example_map [''cough'', ''fever''] (- 1) = Inr [(''flu'', 100), (''cold'', 50)]"
  unfolding example_map_def by code_simp

text \<open>
  C3. On a table that maps \<open>fever\<close> to the diseases \<open>flu\<close> and \<open>malaria\<close> and \<open>cough\<close> to \<open>flu\<close>
  and \<open>cold\<close>, with the symptoms \<open>fever\<close> and \<open>cough\<close>, in whatever order the symptoms and
  the diseases are iterated: \<open>flu\<close> is counted twice, \<open>malaria\<close> and \<open>cold\<close> once, the result is
  \<open>flu\<close> at 100.0 followed by \<open>malaria\<close> and \<open>cold\<close> at 50.0, these two in the order in which they
  were first met. In general, for every table, symptom list and probability, the diseases
  placed at that probability appear in the ranking in the order in which they were first
  met during the accumulation.
\<close>

theorem scenario_and_tie_order:
  "(distinct symptoms \<and> set symptoms = {''fever'', ''cough''}
      \<and> m ''fever'' = Some fs \<and> distinct fs \<and> set fs = {''flu'', ''malaria''}
      \<and> m ''cough'' = Some cs \<and> distinct cs \<and> set cs = {''flu'', ''cold''}
    \<longrightarrow> (\<exists>ds. accumulate m [] symptoms = Inr ds
              \<and> set ds = {(''flu'', 2), (''malaria'', 1), (''cold'', 1)})
       \<and> predict_disease m symptoms 3 =
           Inr ((''flu'', 100) # map (\<lambda>d. (d, 50))
                  (filter (\<lambda>d. d \<noteq> ''flu'') (first_seen [] (encountered m symptoms)))))
   \<and> (\<exists>full. (\<forall>n. predict_disease m symptoms n = Inr (py_slice_to full n))
         \<and> (\<forall>p. map fst (filter (\<lambda>r. snd r = p) full) =
                  filter (\<lambda>d. (d, p) \<in> set full) (first_seen [] (encountered m symptoms))))"
proof (intro conjI impI)
  assume a: "distinct symptoms \<and> set symptoms = {''fever'', ''cough''}
      \<and> m ''fever'' = Some fs \<and> distinct fs \<and> set fs = {''flu'', ''malaria''}
      \<and> m ''cough'' = Some cs \<and> distinct cs \<and> set cs = {''flu'', ''cold''}"
  then have h: "distinct symptoms" "set symptoms = {''fever'', ''cough''}"
    "m ''fever'' = Some fs" "distinct fs" "set fs = {''flu'', ''malaria''}"
    "m ''cough'' = Some cs" "distinct cs" "set cs = {''flu'', ''cold''}"
    by simp_all
  show "\<exists>ds. accumulate m [] symptoms = Inr ds
              \<and> set ds = {(''flu'', 2), (''malaria'', 1), (''cold'', 1)}"
    using scenario(1)[OF h] accumulate_scores[of m symptoms] by (intro exI conjI)
  show "predict_disease m symptoms 3 =
           Inr ((''flu'', 100) # map (\<lambda>d. (d, 50))
                  (filter (\<lambda>d. d \<noteq> ''flu'') (first_seen [] (encountered m symptoms))))"
    unfolding predict_disease_eq scenario(2)[OF h] using scenario(3)[OF h] by (simp only:)
next
  show "\<exists>full. (\<forall>n. predict_disease m symptoms n = Inr (py_slice_to full n))
         \<and> (\<forall>p. map fst (filter (\<lambda>r. snd r = p) full) =
                  filter (\<lambda>d. (d, p) \<in> set full) (first_seen [] (encountered m symptoms)))"
    by (rule exI[of _ "ranking m symptoms"]) (simp add: predict_disease_eq ranking_ties)
qed

theorem scenario_and_tie_order_witness:
  "predict_disease example_map [''fever'', ''cough''] 3 =
     Inr [(''flu'', 100), (''malaria'', 50), (''cold'', 50)]
   \<and> predict_disease example_map [''cough'', ''fever''] 3 =
     Inr [(''flu'', 100), (''cold'', 50), (''malaria'', 50)]"
proof -
  have h1: "distinct [''fever'', ''cough''] \<and> set [''fever'', ''cough''] = {''fever'', ''cough''}
      \<and> example_map ''fever'' = Some [''flu'', ''malaria'']
      \<and> distinct [''flu'', ''malaria''] \<and> set [''flu'', ''malaria''] = {''flu'', ''malaria''}
      \<and> example_map ''cough'' = Some [''flu'', ''cold'']
      \<and> distinct [''flu'', ''cold''] \<and> set [''flu'', ''cold''] = {''flu'', ''cold''}"
    by (simp add: example_map_def)
  have h2: "distinct [''cough'', ''fever''] \<and> set [''cough'', ''fever''] = {''fever'', ''cough''}
      \<and> example_map ''fever'' = Some [''flu'', ''malaria'']
      \<and> distinct [''flu'', ''malaria''] \<and> set [''flu'', ''malaria''] = {''flu'', ''malaria''}
      \<and> example_map ''cough'' = Some [''flu'', ''cold'']
      \<and> distinct [''flu'', ''cold''] \<and> set [''flu'', ''cold''] = {''flu'', ''cold''}"
    by (auto simp: example_map_def)
  have e1: "first_seen [] (encountered example_map [''fever'', ''cough''])
              = [''flu'', ''malaria'', ''cold'']"
    by (simp add: encountered_def example_map_def)
  have e2: "first_seen [] (encountered example_map [''cough'', ''fever''])
              = [''flu'', ''cold'', ''malaria'']"
    by (simp add: encountered_def example_map_def)
  from scenario_and_tie_order
         [of "[''fever'', ''cough'']" example_map "[''flu'', ''malaria'']" "[''flu'', ''cold'']"] h1
  have r1: "predict_disease example_map [''fever'', ''cough''] 3 =
     Inr [(''flu'', 100), (''malaria'', 50), (''cold'', 50)]"
    unfolding e1 by simp
  from scenario_and_tie_order
         [of "[''cough'', ''fever'']" example_map "[''flu'', ''malaria'']" "[''flu'', ''cold'']"] h2
  have r2: "predict_disease example_map [''cough'', ''fever''] 3 =
     Inr [(''flu'', 100), (''cold'', 50), (''malaria'', 50)]"
    unfolding e2 by simp
  from r1 r2 show ?thesis by (intro conjI)
qed

section \<open>Properties of the extractor\<close>

text \<open>
  C4 (as amended). Every symptom that the text extraction recognizes belongs to the
  vocabulary \<^verbatim>\<open>all_symptoms\<close>. The result of \<^verbatim>\<open>preprocess_symptoms\<close> contains every selected
  symptom as it was passed, and nothing outside the selected symptoms and the vocabulary;
  it lies within the vocabulary when the selected symptoms do.
\<close>

theorem preprocess_symptoms_vocabulary:
  "extract_symptoms_from_text env voc text \<subseteq> set (all_symptoms voc)
   \<and> set selected \<subseteq> preprocess_symptoms env voc selected text
   \<and> preprocess_symptoms env voc selected text \<subseteq> set selected \<union> set (all_symptoms voc)
   \<and> (set selected \<subseteq> set (all_symptoms voc) \<longrightarrow>
         preprocess_symptoms env voc selected text \<subseteq> set (all_symptoms voc))"
proof -
  have e: "extract_symptoms_from_text env voc text \<subseteq> set (all_symptoms voc)"
    by (rule extract_subset_vocabulary)
  have p: "preprocess_symptoms env voc selected text = set selected
           \<or> preprocess_symptoms env voc selected text
               = set selected \<union> extract_symptoms_from_text env voc text"
    by (simp add: preprocess_symptoms_def Let_def)
  from e p show ?thesis by auto
qed

theorem preprocess_symptoms_vocabulary_witness:
  "set [''fever''] \<subseteq> set (all_symptoms demo_vocabulary)
   \<and> preprocess_symptoms demo_nlp demo_vocabulary [''fever''] ''my Headaches''
       \<subseteq> set (all_symptoms demo_vocabulary)"
proof -
  have h: "set [''fever''] \<subseteq> set (all_symptoms demo_vocabulary)"
    by (simp add: demo_vocabulary_def)
  from preprocess_symptoms_vocabulary
         [of demo_nlp demo_vocabulary "''my Headaches''" "[''fever'']"] h
  show ?thesis by blast
qed

text \<open>
  C4 as stated fails: a selected symptom is passed through without a check, also when it
  is not in the vocabulary.
\<close>

theorem preprocess_symptoms_vocabulary_counterexample:
  "preprocess_symptoms demo_nlp demo_vocabulary [''bogus''] '''' = {''bogus''}
   \<and> ''bogus'' \<notin> set (all_symptoms demo_vocabulary)"
  by code_simp

text \<open>
  C6 (as amended). For a vocabulary whose registered synonyms are stored in lower case, the
  symptoms recognized in a text are the first matches, in the order of the vocabulary, of
  the phrases of one to four consecutive tokens of the filtered, lemmatized token sequence
  of the lower-cased text, joined by single spaces, where a phrase matches a symptom when
  it equals the lower-cased canonical name or one of the lower-cased registered synonyms of
  the symptom. So a phrase of the token sequence that equals the lower-cased name or a
  lower-cased registered synonym of a vocabulary symptom puts a canonical symptom that it
  matches into the result, this very symptom when no other symptom of the vocabulary
  matches the phrase; and the result holds canonical names only. Nothing is stated for a
  synonym that is stored with capital letters.
\<close>

theorem phrase_resolution:
  assumes "\<forall>c \<in> set (all_symptoms voc).
             \<forall>syn \<in> set (case symptom_synonyms voc c of None \<Rightarrow> [] | Some syns \<Rightarrow> syns).
               lower env syn = syn"
  shows "extract_symptoms_from_text env voc text =
     {s. \<exists>i j. i < j \<and> j \<le> i + 4 \<and> j \<le> length (clean_words env text)
            \<and> find (\<lambda>c. join_space (py_slice (clean_words env text) i j) = lower env c
                       \<or> join_space (py_slice (clean_words env text) i j)
                           \<in> lower env ` set (case symptom_synonyms voc c of
                                                 None \<Rightarrow> [] | Some syns \<Rightarrow> syns))
                 (all_symptoms voc) = Some s}
   \<and> extract_symptoms_from_text env voc text \<subseteq> set (all_symptoms voc)
   \<and> (i < j \<and> j \<le> i + 4 \<and> j \<le> length (clean_words env text)
        \<and> phrase = join_space (py_slice (clean_words env text) i j)
        \<and> symptom \<in> set (all_symptoms voc)
        \<and> (phrase = lower env symptom
             \<or> phrase \<in> lower env ` set (case symptom_synonyms voc symptom of
                                            None \<Rightarrow> [] | Some syns \<Rightarrow> syns))
      \<longrightarrow> (\<exists>canonical. canonical \<in> set (all_symptoms voc)
               \<and> (phrase = lower env canonical
                    \<or> phrase \<in> lower env ` set (case symptom_synonyms voc canonical of
                                                   None \<Rightarrow> [] | Some syns \<Rightarrow> syns))
               \<and> canonical \<in> extract_symptoms_from_text env voc text)
          \<and> ((\<forall>other \<in> set (all_symptoms voc).
                  (phrase = lower env other
                   \<or> phrase \<in> lower env ` set (case symptom_synonyms voc other of
                                                  None \<Rightarrow> [] | Some syns \<Rightarrow> syns))
                  \<longrightarrow> other = symptom)
               \<longrightarrow> symptom \<in> extract_symptoms_from_text env voc text))"
proof (intro conjI impI)
  let ?ws = "clean_words env text"
  let ?syn = "\<lambda>c. case symptom_synonyms voc c of None \<Rightarrow> [] | Some syns \<Rightarrow> syns"
  let ?test = "\<lambda>p c. p = lower env c \<or> p \<in> lower env ` set (?syn c)"
  have fm: "find (matches env voc p) (all_symptoms voc) = find (?test p) (all_symptoms voc)" for p
    using assms by (rule find_matches_lower)
  show char: "extract_symptoms_from_text env voc text =
     {s. \<exists>i j. i < j \<and> j \<le> i + 4 \<and> j \<le> length ?ws
            \<and> find (?test (join_space (py_slice ?ws i j))) (all_symptoms voc) = Some s}"
    unfolding extract_eq_first_matches[of env voc "text"] fm ..
  show "extract_symptoms_from_text env voc text \<subseteq> set (all_symptoms voc)"
    by (rule extract_subset_vocabulary)
  assume a: "i < j \<and> j \<le> i + 4 \<and> j \<le> length ?ws
        \<and> phrase = join_space (py_slice ?ws i j)
        \<and> symptom \<in> set (all_symptoms voc)
        \<and> ?test phrase symptom"
  have ij: "i < j \<and> j \<le> i + 4 \<and> j \<le> length ?ws"
    using a by (elim conjE) (intro conjI; assumption)
  have ph: "phrase = join_space (py_slice ?ws i j)" using a by (elim conjE)
  have sym: "symptom \<in> set (all_symptoms voc)" using a by (elim conjE)
  have m: "?test phrase symptom" using a by (elim conjE)
  have "\<exists>x. x \<in> set (all_symptoms voc) \<and> ?test phrase x"
    using sym m by (intro exI[of _ symptom] conjI)
  then have "find (?test phrase) (all_symptoms voc) \<noteq> None"
    unfolding find_None_iff by (simp only: not_not)
  then obtain c where c: "find (?test phrase) (all_symptoms voc) = Some c" by (rule not_None_eq[THEN iffD1, THEN exE])
  from c[unfolded find_Some_iff] obtain k where k: "k < length (all_symptoms voc)"
    and ck: "?test phrase (all_symptoms voc ! k)" and ce: "c = all_symptoms voc ! k"
    by (elim exE conjE)
  have cin: "c \<in> set (all_symptoms voc)" unfolding ce using k by (rule nth_mem)
  have cm: "?test phrase c" unfolding ce by (rule ck)
  have "\<exists>i j. i < j \<and> j \<le> i + 4 \<and> j \<le> length ?ws
            \<and> find (?test (join_space (py_slice ?ws i j))) (all_symptoms voc) = Some c"
    using ij c unfolding ph by (intro exI[of _ i] exI[of _ j]) (simp only: simp_thms)
  then have cres: "c \<in> extract_symptoms_from_text env voc text"
    unfolding char by (rule CollectI)
  show "\<exists>canonical. canonical \<in> set (all_symptoms voc)
               \<and> ?test phrase canonical
               \<and> canonical \<in> extract_symptoms_from_text env voc text"
    by (rule exI[of _ c]) (intro conjI cin cm cres)
  assume "\<forall>other \<in> set (all_symptoms voc). ?test phrase other \<longrightarrow> other = symptom"
  from this[rule_format, OF cin cm] have "c = symptom" .
  with cres show "symptom \<in> extract_symptoms_from_text env voc text" by (simp only:)
qed

theorem phrase_resolution_witness:
  "clean_words demo_nlp ''My Runny nose...'' = [''runny'', ''nose'']
   \<and> symptom_synonyms demo_vocabulary ''rhinorrhea'' = Some [''runny nose'']
   \<and> lower demo_nlp ''runny nose'' = ''runny nose''
   \<and> ''rhinorrhea'' \<in> extract_symptoms_from_text demo_nlp demo_vocabulary ''My Runny nose...''"
proof -
  have w: "clean_words demo_nlp ''My Runny nose...'' = [''runny'', ''nose'']" by code_simp
  have syn: "symptom_synonyms demo_vocabulary ''rhinorrhea'' = Some [''runny nose'']"
    by (simp add: demo_vocabulary_def)
  have low: "lower demo_nlp ''runny nose'' = ''runny nose''" by code_simp
  have stored: "\<forall>c \<in> set (all_symptoms demo_vocabulary).
             \<forall>syn \<in> set (case symptom_synonyms demo_vocabulary c of None \<Rightarrow> [] | Some syns \<Rightarrow> syns).
               lower demo_nlp syn = syn"
    by code_simp
  have h1: "(0::nat) < 2 \<and> (2::nat) \<le> 0 + 4 \<and> 2 \<le> length (clean_words demo_nlp ''My Runny nose...'')"
    unfolding w by simp
  have h2: "''runny nose'' = join_space (py_slice (clean_words demo_nlp ''My Runny nose...'') 0 2)"
    unfolding w by (simp add: py_slice_def)
  have h3: "''rhinorrhea'' \<in> set (all_symptoms demo_vocabulary)" by (simp add: demo_vocabulary_def)
  have h4: "''runny nose'' = lower demo_nlp ''rhinorrhea''
             \<or> ''runny nose'' \<in> lower demo_nlp ` set (case symptom_synonyms demo_vocabulary ''rhinorrhea'' of
                                            None \<Rightarrow> [] | Some syns \<Rightarrow> syns)"
    by code_simp
  have h: "(0::nat) < 2 \<and> (2::nat) \<le> 0 + 4 \<and> 2 \<le> length (clean_words demo_nlp ''My Runny nose...'')
        \<and> ''runny nose'' = join_space (py_slice (clean_words demo_nlp ''My Runny nose...'') 0 2)
        \<and> ''rhinorrhea'' \<in> set (all_symptoms demo_vocabulary)
        \<and> (''runny nose'' = lower demo_nlp ''rhinorrhea''
             \<or> ''runny nose'' \<in> lower demo_nlp ` set (case symptom_synonyms demo_vocabulary ''rhinorrhea'' of
                                            None \<Rightarrow> [] | Some syns \<Rightarrow> syns))"
    using h1 h2 h3 h4 by (intro conjI) (simp_all only: simp_thms)
  have only: "\<forall>other \<in> set (all_symptoms demo_vocabulary).
                  (''runny nose'' = lower demo_nlp other
                   \<or> ''runny nose'' \<in> lower demo_nlp ` set (case symptom_synonyms demo_vocabulary other of
                                                  None \<Rightarrow> [] | Some syns \<Rightarrow> syns))
                  \<longrightarrow> other = ''rhinorrhea''"
    by code_simp
  note t = phrase_resolution
         [OF stored, of "''My Runny nose...''" 0 2 "''runny nose''" "''rhinorrhea''"]
  from t[THEN conjunct2, THEN conjunct2, THEN mp, OF h, THEN conjunct2, THEN mp, OF only] w syn low
  show ?thesis by (intro conjI)
qed

text \<open>
  C6 as stated fails: the phrase \<open>pain in chest\<close> is a registered synonym of \<open>chest pain\<close>, and
  a text that contains it resolves to nothing, since the stop word \<open>in\<close> is removed before
  the phrases are formed.
\<close>

theorem phrase_resolution_counterexample:
  "symptom_synonyms demo_vocabulary ''chest pain'' = Some [''pain in chest'']
   \<and> extract_symptoms_from_text demo_nlp demo_vocabulary ''pain in chest'' = {}"
  by code_simp

text \<open>
  C7. When the free text is empty, or when every token of the cleaned text is a stop word
  (no token at all for a blank text or for punctuation only), \<^verbatim>\<open>preprocess_symptoms\<close> returns
  exactly the set of the selected symptoms; on no selection and the empty text it returns
  the empty set, and on the selection \<open>fever\<close> and the empty text the set of \<open>fever\<close>,
  whatever the vocabulary is.
\<close>

theorem preprocess_symptoms_pass_through:
  "(text = [] \<or> (\<forall>w \<in> set (word_tokenize env (sub_nonword env (lower env text))).
                   w \<in> stop_words env)
      \<longrightarrow> preprocess_symptoms env voc selected text = set selected)
   \<and> preprocess_symptoms env voc [] [] = {}
   \<and> preprocess_symptoms env voc [''fever''] [] = {''fever''}"
proof (intro conjI impI)
  assume "text = [] \<or> (\<forall>w \<in> set (word_tokenize env (sub_nonword env (lower env text))).
                   w \<in> stop_words env)"
  then show "preprocess_symptoms env voc selected text = set selected"
  proof
    assume "text = []"
    then show ?thesis by (simp add: preprocess_symptoms_def Let_def)
  next
    assume "\<forall>w \<in> set (word_tokenize env (sub_nonword env (lower env text))). w \<in> stop_words env"
    then have "clean_words env text = []" by (rule clean_words_empty)
    then have "extract_symptoms_from_text env voc text = {}" by (rule extract_no_words)
    then show ?thesis by (simp add: preprocess_symptoms_def Let_def)
  qed
next
  show "preprocess_symptoms env voc [] [] = {}" by (simp add: preprocess_symptoms_def Let_def)
  show "preprocess_symptoms env voc [''fever''] [] = {''fever''}"
    by (simp add: preprocess_symptoms_def Let_def)
qed

theorem preprocess_symptoms_pass_through_witness:
  "word_tokenize demo_nlp (sub_nonword demo_nlp (lower demo_nlp '' ?! The, and... '')) = [''the'', ''and'']
   \<and> preprocess_symptoms demo_nlp demo_vocabulary [''bogus'', ''fever''] '' ?! The, and... ''
       = {''bogus'', ''fever''}"
proof -
  have t: "word_tokenize demo_nlp (sub_nonword demo_nlp (lower demo_nlp '' ?! The, and... ''))
             = [''the'', ''and'']"
    by code_simp
  have h: "\<forall>w \<in> set (word_tokenize demo_nlp (sub_nonword demo_nlp (lower demo_nlp '' ?! The, and... ''))).
             w \<in> stop_words demo_nlp"
    unfolding t by (simp add: demo_nlp_def)
  from preprocess_symptoms_pass_through
         [of "'' ?! The, and... ''" demo_nlp demo_vocabulary "[''bogus'', ''fever'']"] h
  have "preprocess_symptoms demo_nlp demo_vocabulary [''bogus'', ''fever''] '' ?! The, and... ''
          = set [''bogus'', ''fever'']"
    by blast
  with t show ?thesis by simp
qed



text \<open>
  C10. \<^verbatim>\<open>get_disease_info\<close> returns \<^verbatim>\<open>None\<close> for a name that is not a key of the table, and
  the stored entry for a name that is.
\<close>

theorem get_disease_info_lookup:
  "(diseases_data disease_name = None \<longrightarrow> get_disease_info diseases_data disease_name = None)
   \<and> (diseases_data disease_name = Some info \<longrightarrow>
         get_disease_info diseases_data disease_name = Some info)"
  by (simp add: get_disease_info_def dict_get_def)

theorem get_disease_info_lookup_witness:
  "[''flu'' \<mapsto> ''rest and fluids''] ''gout'' = None
   \<and> get_disease_info [''flu'' \<mapsto> ''rest and fluids''] ''gout'' = None
   \<and> [''flu'' \<mapsto> ''rest and fluids''] ''flu'' = Some ''rest and fluids''
   \<and> get_disease_info [''flu'' \<mapsto> ''rest and fluids''] ''flu'' = Some ''rest and fluids''"
proof -
  have a: "[''flu'' \<mapsto> ''rest and fluids''] ''gout'' = None" by simp
  have b: "[''flu'' \<mapsto> ''rest and fluids''] ''flu'' = Some ''rest and fluids''" by simp
  from get_disease_info_lookup [of "[''flu'' \<mapsto> ''rest and fluids'']" "''gout''" "''x''"] a
  have c: "get_disease_info [''flu'' \<mapsto> ''rest and fluids''] ''gout'' = None" by blast
  from get_disease_info_lookup [of "[''flu'' \<mapsto> ''rest and fluids'']" "''flu''" "''rest and fluids''"] b
  have d: "get_disease_info [''flu'' \<mapsto> ''rest and fluids''] ''flu'' = Some ''rest and fluids''" by blast
  from a b c d show ?thesis by (intro conjI)
qed

section \<open>No call changes a table, and a repeated call gives the same set\<close>

text \<open>
  C8. In a store that holds the vocabulary, the synonym table and the association table,
  \<^verbatim>\<open>preprocess_symptoms\<close> called twice in a row on the same selected list and the same text
  returns two lists with the same set of elements, the set that the function computes from
  the contents of the tables; \<^verbatim>\<open>predict_disease\<close> called on the result returns the ranking
  computed from the association table; and after each of the three calls every object
  that existed before the first call, the three tables and the selected list among them,
  is what it was: the calls write to objects that they have created themselves.
\<close>

theorem calls_leave_tables_unchanged:
  assumes "tables_at g voc m s"
    and "heap s selected = Some (StrList sel)" and "selected < next_addr s"
    and "\<forall>S. finite S \<longrightarrow> set (set_order S) = S"
  shows "\<exists>r1 s1 xs1 r2 s2 xs2 r3 s3 res.
           preprocess_symptoms_h env set_order g selected free_text s = Some (r1, s1)
         \<and> heap s1 r1 = Some (StrList xs1)
         \<and> preprocess_symptoms_h env set_order g selected free_text s1 = Some (r2, s2)
         \<and> heap s2 r2 = Some (StrList xs2)
         \<and> set xs1 = set xs2
         \<and> set xs1 = preprocess_symptoms env voc sel free_text
         \<and> predict_disease_h g r2 top_n s2 = Some (r3, s3)
         \<and> heap s3 r3 = Some (ResultList res)
         \<and> predict_disease m xs2 top_n = Inr res
         \<and> (\<forall>a < next_addr s. heap s1 a = heap s a \<and> heap s2 a = heap s a \<and> heap s3 a = heap s a)
         \<and> tables_at g voc m s1 \<and> tables_at g voc m s2 \<and> tables_at g voc m s3"
proof -
  let ?P = "preprocess_symptoms env voc sel free_text"
  have setP: "set (set_order ?P) = ?P" by (rule assms(4)[rule_format, OF finite_preprocess])
  from preprocess_h_eq[OF assms(1,2), of env set_order free_text]
  obtain r1 s1 where c1: "preprocess_symptoms_h env set_order g selected free_text s = Some (r1, s1)"
    and h1: "heap s1 r1 = Some (StrList (set_order ?P))"
    and f1: "\<forall>a < next_addr s. heap s1 a = heap s a"
    and n1: "next_addr s \<le> next_addr s1" by (elim exE conjE)
  have t1: "tables_at g voc m s1" using assms(1) f1 n1 by (rule tables_at_frame)
  have "heap s1 selected = heap s selected" by (rule f1[rule_format, OF assms(3)])
  then have sel1: "heap s1 selected = Some (StrList sel)" using assms(2) by simp
  from preprocess_h_eq[OF t1 sel1, of env set_order free_text]
  obtain r2 s2 where c2: "preprocess_symptoms_h env set_order g selected free_text s1 = Some (r2, s2)"
    and h2: "heap s2 r2 = Some (StrList (set_order ?P))"
    and f2: "\<forall>a < next_addr s1. heap s2 a = heap s1 a"
    and n2: "next_addr s1 \<le> next_addr s2" by (elim exE conjE)
  have t2: "tables_at g voc m s2" using t1 f2 n2 by (rule tables_at_frame)
  from predict_h_eq[OF t2 h2, of top_n]
  obtain r3 s3 where c3: "predict_disease_h g r2 top_n s2 = Some (r3, s3)"
    and h3: "heap s3 r3 = Some (ResultList (py_slice_to (ranking m (set_order ?P)) top_n))"
    and f3: "\<forall>a < next_addr s2. heap s3 a = heap s2 a"
    and n3: "next_addr s2 \<le> next_addr s3" by (elim exE conjE)
  have t3: "tables_at g voc m s3" using t2 f3 n3 by (rule tables_at_frame)
  have p: "predict_disease m (set_order ?P) top_n
             = Inr (py_slice_to (ranking m (set_order ?P)) top_n)"
    by (rule predict_disease_eq)
  have frame: "\<forall>a < next_addr s. heap s1 a = heap s a \<and> heap s2 a = heap s a \<and> heap s3 a = heap s a"
  proof (intro allI impI)
    fix a assume a: "a < next_addr s"
    then have a1: "a < next_addr s1" and a2: "a < next_addr s2" using n1 n2 by simp_all
    have e1: "heap s1 a = heap s a" by (rule f1[rule_format, OF a])
    have e2: "heap s2 a = heap s1 a" by (rule f2[rule_format, OF a1])
    have e3: "heap s3 a = heap s2 a" by (rule f3[rule_format, OF a2])
    show "heap s1 a = heap s a \<and> heap s2 a = heap s a \<and> heap s3 a = heap s a"
      using e1 e2 e3 by simp
  qed
  have same: "set (set_order ?P) = set (set_order ?P)" by (rule refl)
  show ?thesis
    apply (rule exI[of _ r1], rule exI[of _ s1], rule exI[of _ "set_order ?P"])
    apply (rule exI[of _ r2], rule exI[of _ s2], rule exI[of _ "set_order ?P"])
    apply (rule exI[of _ r3], rule exI[of _ s3])
    apply (rule exI[of _ "py_slice_to (ranking m (set_order ?P)) top_n"])
    apply (rule conjI, rule c1, rule conjI, rule h1, rule conjI, rule c2, rule conjI, rule h2)
    apply (rule conjI, rule same, rule conjI, rule setP, rule conjI, rule c3, rule conjI, rule h3)
    apply (rule conjI, rule p, rule conjI, rule frame, rule conjI, rule t1, rule conjI, rule t2)
    apply (rule t3)
    done
qed

theorem calls_leave_tables_unchanged_witness:
  "\<exists>r1 s1 xs1 r2 s2 xs2 r3 s3 res.
           preprocess_symptoms_h demo_nlp sorted_list_of_set demo_globals 3 ''I have a Fever!'' demo_store
             = Some (r1, s1)
         \<and> heap s1 r1 = Some (StrList xs1)
         \<and> preprocess_symptoms_h demo_nlp sorted_list_of_set demo_globals 3 ''I have a Fever!'' s1
             = Some (r2, s2)
         \<and> heap s2 r2 = Some (StrList xs2)
         \<and> set xs1 = set xs2
         \<and> set xs1 = preprocess_symptoms demo_nlp demo_vocabulary [''cough''] ''I have a Fever!''
         \<and> predict_disease_h demo_globals r2 3 s2 = Some (r3, s3)
         \<and> heap s3 r3 = Some (ResultList res)
         \<and> predict_disease example_map xs2 3 = Inr res
         \<and> (\<forall>a < next_addr demo_store.
               heap s1 a = heap demo_store a \<and> heap s2 a = heap demo_store a
             \<and> heap s3 a = heap demo_store a)
         \<and> tables_at demo_globals demo_vocabulary example_map s1
         \<and> tables_at demo_globals demo_vocabulary example_map s2
         \<and> tables_at demo_globals demo_vocabulary example_map s3"
proof -
  have t: "tables_at demo_globals demo_vocabulary example_map demo_store"
    by (simp add: tables_at_def demo_globals_def demo_store_def)
  have sel: "heap demo_store 3 = Some (StrList [''cough''])" by (simp add: demo_store_def)
  have lt: "3 < next_addr demo_store" by (simp add: demo_store_def)
  have ord: "\<forall>S :: string set. finite S \<longrightarrow> set (sorted_list_of_set S) = S" by simp
  from calls_leave_tables_unchanged [OF t sel lt ord] show ?thesis .
qed

end
